theory Spec2Isabelle
  imports Main "HOL-Library.AList"
begin

section \<open>The action registry of porcupine/actions.py\<close>

text \<open>
  The module keeps one ordered dictionary \<open>_actions\<close> from paths to \<open>Action\<close> objects and
  talks to four collaborators: the main window (virtual events, key bindings), the tab
  manager (the selected tab, the \<open>NotebookTabChanged\<close> event), tkinter variables (get, set,
  write traces) and the \<open>warnings\<close> module. Each collaborator is a component of the state
  record below; every function of the module takes the state and returns the new one,
  together with the value returned or the exception raised. What the collaborators do
  on their own is not part of the module: an event that is generated, a warning that is
  issued and a callback that is called are recorded in the state, in order, and the
  listeners of the events, the warning filters and the bodies of the callbacks are left
  out.
\<close>

subsection \<open>Exceptions\<close>

text \<open>
  One constructor per \<open>raise\<close> of the module, named as in the specification:
  \<open>InvalidPathError\<close> is the \<open>ValueError\<close> of line 84, \<open>DuplicatePathError\<close> the
  \<open>RuntimeError\<close> of line 86, \<open>ConfigurationError\<close> the \<open>TypeError\<close> of line 171,
  \<open>InvalidChoiceError\<close> the \<open>ValueError\<close> of lines 206, 211 and 215, \<open>NotFoundError\<close> the
  \<open>KeyError\<close> of the dictionary lookup of line 224, \<open>IndexError\<close> the failure of
  \<open>choices[0]\<close> on an empty list (line 204), \<open>AssertionError\<close> the assertion of line 112.
\<close>

datatype error =
    InvalidPathError
  | DuplicatePathError
  | ConfigurationError
  | InvalidChoiceError
  | NotFoundError
  | IndexError
  | AssertionError

subsection \<open>Actions\<close>

datatype action_kind = Command | YesNo | Choice

text \<open>
  A callback is an opaque callable: it is known by an identifier, and calling it is
  recorded in the state (what it does when called is not part of the module; it is
  taken to return). A tkinter variable is known by its number (tkinter names the
  variables it creates \<open>PY_VAR0\<close>, \<open>PY_VAR1\<close>, ...). The variable of a yes/no action is
  a \<open>BooleanVar\<close>, the variable of a choice action a \<open>StringVar\<close> (as the docstrings of
  \<open>add_yesno\<close> and \<open>add_choice\<close> require), so the two kinds live in two stores.
\<close>

type_synonym callback = nat

type_synonym var = nat

text \<open>
  \<open>Action.__init__\<close> receives \<open>kind\<close>, \<open>callback_or_choices\<close> and \<open>var\<close> and asserts
  that they fit together: a command has a callback, a yes/no action a variable, a choice
  action a list of choices and a variable. The payload is that triple, restricted to the
  combinations the assertions accept; the attributes \<open>kind\<close>, \<open>callback\<close>, \<open>var\<close> and
  \<open>choices\<close> are read off it.
\<close>

datatype payload =
    OfCommand callback
  | OfYesNo var
  | OfChoice var "string list"

fun kind_of :: "payload \<Rightarrow> action_kind" where
  "kind_of (OfCommand cb) = Command"
| "kind_of (OfYesNo v) = YesNo"
| "kind_of (OfChoice v cs) = Choice"

record action =
  path :: string
  binding :: "string option"
  enabled :: bool
  payload :: payload

definition kind :: "action \<Rightarrow> action_kind" where
  "kind a = kind_of (payload a)"

subsection \<open>The collaborators\<close>

text \<open>The virtual events generated on the main window, with their \<open>data\<close>.\<close>

datatype event =
    NewAction (data: string)
  | ActionEnabled (data: string)
  | ActionDisabled (data: string)

text \<open>
  Tab classes come from the module \<open>tabs\<close>, which is not part of this file: a class is
  known by its name, and the subclass relation of the classes is a parameter \<open>sub\<close> of
  every function that calls \<open>isinstance\<close> (\<open>sub c d\<close>: class \<open>c\<close> is \<open>d\<close> or inherits
  from \<open>d\<close>). A tab is represented by its class; \<open>None\<close> is no selected tab.
\<close>

type_synonym tabcls = string

datatype pytype = NoneType | TabType tabcls

text \<open>What a key binding handler returns: \<open>'break'\<close> stops the event, \<open>None\<close> lets it go on.\<close>

datatype break_or_none = Break | PyNone

text \<open>
  A write trace of a string variable: \<open>Action._var_set_check\<close> bound to its action, which
  reads the action's variable, path and choices (none of them is ever reassigned).
\<close>

type_synonym trace = "var \<times> string \<times> string list"

text \<open>
  A reference to an \<open>Action\<close> object is its key in \<open>_actions\<close>: every object the module
  creates is stored there under its own path, and nothing is ever deleted. The closures
  \<open>enable_or_disable\<close> and \<open>bind_callback\<close> and the property setter hold such a
  reference; for a reference under which nothing is stored, which the module never
  makes, the functions below leave the state as it is.
\<close>

type_synonym action_ref = string

record state =
  actions :: "(string \<times> action) list"
  events :: "event list"
  warnings :: "(string \<times> string) list"
  selected :: "tabcls option"
  tab_handlers :: "(action_ref \<times> pytype list) list"
  all_bindings :: "(string \<times> action_ref) list"
  text_bindings :: "(string \<times> action_ref) list"
  bool_vars :: "var \<Rightarrow> bool"
  str_vars :: "var \<Rightarrow> string"
  traces :: "trace list"
  varnum :: nat
  calls :: "callback list"

text \<open>
  \<open>actions\<close> is the \<open>OrderedDict\<close> in insertion order; \<open>events\<close> the events generated so
  far, oldest first; \<open>warnings\<close> the calls of \<open>warnings.warn\<close> so far, each with the path
  of the action and the value named in the message; \<open>selected\<close> what
  \<open>get_tab_manager().select()\<close> returns; \<open>tab_handlers\<close> the functions bound to
  \<open>NotebookTabChanged\<close> with \<open>add=True\<close>, in binding order, each \<open>enable_or_disable\<close>
  closure given by its action and its \<open>actual_tabtypes\<close>; \<open>all_bindings\<close> the
  \<open>bind_all\<close> table and \<open>text_bindings\<close> the \<open>bind_class('Text', ...)\<close> table, each
  \<open>bind_callback\<close> closure given by its action; \<open>traces\<close> the write traces, newest first;
  \<open>varnum\<close> tkinter's counter of created variables; \<open>calls\<close> the callbacks called so far.
\<close>

definition init_state :: state where
  "init_state = \<lparr>actions = [], events = [], warnings = [], selected = None,
     tab_handlers = [], all_bindings = [], text_bindings = [],
     bool_vars = (\<lambda>v. False), str_vars = (\<lambda>v. []), traces = [],
     varnum = 0, calls = []\<rparr>"

definition event_generate :: "event \<Rightarrow> state \<Rightarrow> state" where
  "event_generate e st = st\<lparr>events := events st @ [e]\<rparr>"

definition registered :: "state \<Rightarrow> string \<Rightarrow> bool" where
  "registered st p = (map_of (actions st) p \<noteq> None)"

subsection \<open>Action.enabled\<close>

text \<open>
  The setter of lines 56-61, on the object stored under \<open>r\<close>: nothing happens when the
  flag already has the value; otherwise the flag is set and then one event is generated,
  with the path of the action as data.
\<close>

definition set_enabled :: "action_ref \<Rightarrow> bool \<Rightarrow> state \<Rightarrow> state" where
  "set_enabled r is_enabled st =
     (case map_of (actions st) r of
        None \<Rightarrow> st
      | Some a \<Rightarrow>
          if enabled a \<noteq> is_enabled
          then event_generate
                 (if is_enabled then ActionEnabled (path a) else ActionDisabled (path a))
                 (st\<lparr>actions := AList.update r (a\<lparr>enabled := is_enabled\<rparr>) (actions st)\<rparr>)
          else st)"

subsection \<open>Variables\<close>

text \<open>
  \<open>_var_set_check\<close> (lines 63-67): read the variable, warn when the value is not one of
  the choices.
\<close>

definition var_set_check :: "trace \<Rightarrow> state \<Rightarrow> state" where
  "var_set_check t st =
     (case t of (v, p, choices) \<Rightarrow>
        let val = str_vars st v in
        if val \<notin> set choices
        then st\<lparr>warnings := warnings st @ [(p, val)]\<rparr>
        else st)"

text \<open>\<open>var.set(x)\<close> on a string variable: store the value, then run the write traces of
  that variable.\<close>

definition str_var_set :: "var \<Rightarrow> string \<Rightarrow> state \<Rightarrow> state" where
  "str_var_set v x st =
     fold var_set_check (filter (\<lambda>t. fst t = v) (traces st))
       (st\<lparr>str_vars := (str_vars st)(v := x)\<rparr>)"

definition bool_var_set :: "var \<Rightarrow> bool \<Rightarrow> state \<Rightarrow> state" where
  "bool_var_set v b st = st\<lparr>bool_vars := (bool_vars st)(v := b)\<rparr>"

text \<open>\<open>tkinter.BooleanVar()\<close> and \<open>tkinter.StringVar()\<close>: a new variable, with the default
  value of its class.\<close>

definition new_bool_var :: "state \<Rightarrow> var \<times> state" where
  "new_bool_var st =
     (varnum st, st\<lparr>varnum := Suc (varnum st), bool_vars := (bool_vars st)(varnum st := False)\<rparr>)"

definition new_str_var :: "state \<Rightarrow> var \<times> state" where
  "new_str_var st =
     (varnum st, st\<lparr>varnum := Suc (varnum st), str_vars := (str_vars st)(varnum st := [])\<rparr>)"

definition trace_add :: "trace \<Rightarrow> state \<Rightarrow> state" where
  "trace_add t st = st\<lparr>traces := t # traces st\<rparr>"

subsection \<open>Enabling by tab type\<close>

text \<open>Lines 96-100: \<open>None\<close> in \<open>tabtypes\<close> stands for \<open>type(None)\<close>.\<close>

definition actual_tabtypes :: "tabcls option list \<Rightarrow> pytype list" where
  "actual_tabtypes tabtypes =
     map (\<lambda>cls. case cls of None \<Rightarrow> NoneType | Some c \<Rightarrow> TabType c) tabtypes"

text \<open>
  \<open>isinstance(tab, types)\<close> for a tuple of types: some member is the class of the object
  or one of its base classes. \<open>None\<close> is an instance of \<open>type(None)\<close> only, and no tab is
  one.
\<close>

definition isinstance :: "(tabcls \<Rightarrow> tabcls \<Rightarrow> bool) \<Rightarrow> tabcls option \<Rightarrow> pytype list \<Rightarrow> bool" where
  "isinstance sub tab types =
     (case tab of
        None \<Rightarrow> NoneType \<in> set types
      | Some c \<Rightarrow> list_ex (\<lambda>t. case t of NoneType \<Rightarrow> False | TabType d \<Rightarrow> sub c d) types)"

text \<open>Lines 102-104, for the closure of action \<open>r\<close> with \<open>actual_tabtypes = types\<close>.\<close>

definition enable_or_disable ::
  "(tabcls \<Rightarrow> tabcls \<Rightarrow> bool) \<Rightarrow> action_ref \<times> pytype list \<Rightarrow> state \<Rightarrow> state" where
  "enable_or_disable sub h st =
     (case h of (r, types) \<Rightarrow> set_enabled r (isinstance sub (selected st) types) st)"

text \<open>The tab manager selects \<open>tab\<close> and generates \<open>NotebookTabChanged\<close>: the bound
  functions run in binding order.\<close>

definition notebook_tab_changed ::
  "(tabcls \<Rightarrow> tabcls \<Rightarrow> bool) \<Rightarrow> tabcls option \<Rightarrow> state \<Rightarrow> state" where
  "notebook_tab_changed sub tab st =
     fold (enable_or_disable sub) (tab_handlers st) (st\<lparr>selected := tab\<rparr>)"

subsection \<open>Key bindings\<close>

text \<open>
  \<open>bind_callback\<close> (lines 114-124) for the closure of action \<open>r\<close>. The \<open>kind\<close> of the
  closure is the kind of the action.
\<close>

definition bind_callback :: "action_ref \<Rightarrow> state \<Rightarrow> break_or_none \<times> state" where
  "bind_callback r st =
     (case map_of (actions st) r of
        None \<Rightarrow> (PyNone, st)
      | Some a \<Rightarrow>
          if enabled a
          then (Break,
                 (case payload a of
                    OfCommand cb \<Rightarrow> st\<lparr>calls := calls st @ [cb]\<rparr>
                  | OfYesNo v \<Rightarrow> bool_var_set v (\<not> bool_vars st v) st
                  | OfChoice v cs \<Rightarrow> st))
          else (PyNone, st))"

text \<open>Lines 131-133: \<open>bind_all\<close> adds to the handlers of the key, \<open>bind_class\<close> with
  \<open>add=False\<close> replaces the handler of the key.\<close>

definition install_binding :: "action_ref \<Rightarrow> string \<Rightarrow> state \<Rightarrow> state" where
  "install_binding r key st =
     st\<lparr>all_bindings := all_bindings st @ [(key, r)],
        text_bindings := AList.update key r (text_bindings st)\<rparr>"

subsection \<open>Registration\<close>

definition startswith :: "string \<Rightarrow> char \<Rightarrow> bool" where
  "startswith s c = (case s of [] \<Rightarrow> False | x # xs \<Rightarrow> x = c)"

definition endswith :: "string \<Rightarrow> char \<Rightarrow> bool" where
  "endswith s c = (s \<noteq> [] \<and> last s = c)"

text \<open>\<open>Action.__init__\<close> (lines 26-46): a new enabled action; a choice action traces the
  writes of its variable.\<close>

definition action_init :: "string \<Rightarrow> payload \<Rightarrow> string option \<Rightarrow> state \<Rightarrow> action \<times> state" where
  "action_init p pl b st =
     (\<lparr>path = p, binding = b, enabled = True, payload = pl\<rparr>,
      (case pl of OfChoice v cs \<Rightarrow> trace_add (v, p, cs) st | _ \<Rightarrow> st))"

text \<open>Lines 95-108.\<close>

definition auto_enable ::
  "(tabcls \<Rightarrow> tabcls \<Rightarrow> bool) \<Rightarrow> action_ref \<Rightarrow> tabcls option list option \<Rightarrow> state \<Rightarrow> state" where
  "auto_enable sub r tabtypes st =
     (case tabtypes of
        None \<Rightarrow> st
      | Some ts \<Rightarrow>
          let st1 = enable_or_disable sub (r, actual_tabtypes ts) st in
          st1\<lparr>tab_handlers := tab_handlers st1 @ [(r, actual_tabtypes ts)]\<rparr>)"

text \<open>
  \<open>_add_any_action\<close> (lines 70-135). The result is the exception raised or a reference
  to the new action, and the state the call leaves behind.
\<close>

definition add_any_action ::
  "(tabcls \<Rightarrow> tabcls \<Rightarrow> bool) \<Rightarrow> string \<Rightarrow> payload \<Rightarrow> string option \<Rightarrow>
   tabcls option list option \<Rightarrow> state \<Rightarrow> (error + action_ref) \<times> state" where
  "add_any_action sub p pl b tabtypes st =
     (if startswith p CHR ''/'' \<or> endswith p CHR ''/'' then (Inl InvalidPathError, st)
      else if registered st p then (Inl DuplicatePathError, st)
      else
        (case action_init p pl b st of (a, st1) \<Rightarrow>
           let st2 = st1\<lparr>actions := AList.update p a (actions st1)\<rparr>;
               st3 = event_generate (NewAction p) st2;
               st4 = auto_enable sub p tabtypes st3
           in (case b of
                 None \<Rightarrow> (Inr p, st4)
               | Some key \<Rightarrow>
                   if kind_of pl = Command \<or> kind_of pl = YesNo
                   then (Inr p, install_binding p key st4)
                   else (Inl AssertionError, st4))))"

definition add_command ::
  "(tabcls \<Rightarrow> tabcls \<Rightarrow> bool) \<Rightarrow> string \<Rightarrow> callback \<Rightarrow> string option \<Rightarrow>
   tabcls option list option \<Rightarrow> state \<Rightarrow> (error + action_ref) \<times> state" where
  "add_command sub p cb keyboard_binding tabtypes st =
     add_any_action sub p (OfCommand cb) keyboard_binding tabtypes st"

text \<open>\<open>add_yesno\<close> (lines 169-178).\<close>

definition add_yesno ::
  "(tabcls \<Rightarrow> tabcls \<Rightarrow> bool) \<Rightarrow> string \<Rightarrow> bool option \<Rightarrow> string option \<Rightarrow> var option \<Rightarrow>
   tabcls option list option \<Rightarrow> state \<Rightarrow> (error + action_ref) \<times> state" where
  "add_yesno sub p dflt keyboard_binding var tabtypes st =
     (case var of
        None \<Rightarrow>
          (case dflt of
             None \<Rightarrow> (Inl ConfigurationError, st)
           | Some d \<Rightarrow>
               (case new_bool_var st of (v, st1) \<Rightarrow>
                  add_any_action sub p (OfYesNo v) keyboard_binding tabtypes
                    (bool_var_set v d st1)))
      | Some v \<Rightarrow>
          (case dflt of
             None \<Rightarrow> add_any_action sub p (OfYesNo v) keyboard_binding tabtypes st
           | Some d \<Rightarrow>
               add_any_action sub p (OfYesNo v) keyboard_binding tabtypes
                 (bool_var_set v d st)))"

text \<open>\<open>add_choice\<close> (lines 202-219).\<close>

definition add_choice ::
  "(tabcls \<Rightarrow> tabcls \<Rightarrow> bool) \<Rightarrow> string \<Rightarrow> string list \<Rightarrow> string option \<Rightarrow> var option \<Rightarrow>
   tabcls option list option \<Rightarrow> state \<Rightarrow> (error + action_ref) \<times> state" where
  "add_choice sub p choices dflt var tabtypes st =
     (case var of
        None \<Rightarrow>
          (case dflt of
             None \<Rightarrow>
               (case choices of
                  [] \<Rightarrow> (Inl IndexError, st)
                | c # cs \<Rightarrow>
                    (case new_str_var st of (v, st1) \<Rightarrow>
                       add_any_action sub p (OfChoice v choices) None tabtypes
                         (str_var_set v c st1)))
           | Some d \<Rightarrow>
               if d \<notin> set choices then (Inl InvalidChoiceError, st)
               else
                 (case new_str_var st of (v, st1) \<Rightarrow>
                    add_any_action sub p (OfChoice v choices) None tabtypes
                      (str_var_set v d st1)))
      | Some v \<Rightarrow>
          if str_vars st v \<notin> set choices then (Inl InvalidChoiceError, st)
          else
            (case dflt of
               None \<Rightarrow> add_any_action sub p (OfChoice v choices) None tabtypes st
             | Some d \<Rightarrow>
                 if d \<notin> set choices then (Inl InvalidChoiceError, st)
                 else add_any_action sub p (OfChoice v choices) None tabtypes
                        (str_var_set v d st)))"

subsection \<open>Lookup\<close>

text \<open>\<open>s.rstrip(c)\<close> for a single character: every trailing \<open>c\<close> is removed.\<close>

definition rstrip :: "string \<Rightarrow> char \<Rightarrow> string" where
  "rstrip s c = rev (dropWhile (\<lambda>x. x = c) (rev s))"

definition get_action :: "string \<Rightarrow> state \<Rightarrow> error + action" where
  "get_action action_path st =
     (case map_of (actions st) (rstrip action_path CHR ''/'') of
        None \<Rightarrow> Inl NotFoundError
      | Some a \<Rightarrow> Inr a)"

definition get_all_actions :: "state \<Rightarrow> action list" where
  "get_all_actions st = map snd (actions st)"

subsection \<open>Calls and runs\<close>

text \<open>
  A registration call is one of the three entry points with its arguments (the path and
  \<open>tabtypes\<close>, which all three take, apart).
\<close>

datatype registration =
    AddCommand callback "string option"
  | AddYesNo "bool option" "string option" "var option"
  | AddChoice "string list" "string option" "var option"

fun register ::
  "(tabcls \<Rightarrow> tabcls \<Rightarrow> bool) \<Rightarrow> string \<Rightarrow> registration \<Rightarrow> tabcls option list option \<Rightarrow>
   state \<Rightarrow> (error + action_ref) \<times> state" where
  "register sub p (AddCommand cb b) tt st = add_command sub p cb b tt st"
| "register sub p (AddYesNo d b v) tt st = add_yesno sub p d b v tt st"
| "register sub p (AddChoice cs d v) tt st = add_choice sub p cs d v tt st"

fun reg_kind :: "registration \<Rightarrow> action_kind" where
  "reg_kind (AddCommand cb b) = Command"
| "reg_kind (AddYesNo d b v) = YesNo"
| "reg_kind (AddChoice cs d v) = Choice"

text \<open>The key binding the caller passes, if any (\<open>add_choice\<close> takes none).\<close>

fun reg_binding :: "registration \<Rightarrow> string option" where
  "reg_binding (AddCommand cb b) = b"
| "reg_binding (AddYesNo d b v) = b"
| "reg_binding (AddChoice cs d v) = None"

text \<open>The variable the caller passes, if any.\<close>

fun reg_var :: "registration \<Rightarrow> var option" where
  "reg_var (AddCommand cb b) = None"
| "reg_var (AddYesNo d b v) = v"
| "reg_var (AddChoice cs d v) = v"

text \<open>
  The variable of the caller that an entry point writes before it calls
  \<open>_add_any_action\<close>: the one passed together with a default (lines 174-175 and
  213-217).
\<close>

fun overwrites :: "registration \<Rightarrow> var option" where
  "overwrites (AddYesNo (Some d) b (Some v)) = Some v"
| "overwrites (AddChoice cs (Some d) (Some v)) = Some v"
| "overwrites reg = None"

text \<open>
  The checks an entry point makes on its own arguments before it calls
  \<open>_add_any_action\<close>: lines 169-171 for \<open>add_yesno\<close>, lines 202-216 for \<open>add_choice\<close>
  (\<open>choices[0]\<close> needs a first choice); \<open>add_command\<close> makes none.
\<close>

fun args_ok :: "state \<Rightarrow> registration \<Rightarrow> bool" where
  "args_ok st (AddCommand cb b) = True"
| "args_ok st (AddYesNo d b v) = (v \<noteq> None \<or> d \<noteq> None)"
| "args_ok st (AddChoice cs d None) = (case d of None \<Rightarrow> cs \<noteq> [] | Some x \<Rightarrow> x \<in> set cs)"
| "args_ok st (AddChoice cs d (Some v)) =
     (str_vars st v \<in> set cs \<and> (case d of None \<Rightarrow> True | Some x \<Rightarrow> x \<in> set cs))"

text \<open>
  What can happen to a running program: a registration, a write to the \<open>enabled\<close>
  property of an action, a change of the selected tab, a write to a variable, the
  creation of a variable, a key press that reaches the handler of an action.
\<close>

datatype op =
    Register string registration "tabcls option list option"
  | SetEnabled action_ref bool
  | TabChanged "tabcls option"
  | SetStrVar var string
  | SetBoolVar var bool
  | NewStrVar
  | NewBoolVar
  | KeyPressed action_ref

fun step :: "(tabcls \<Rightarrow> tabcls \<Rightarrow> bool) \<Rightarrow> op \<Rightarrow> state \<Rightarrow> state" where
  "step sub (Register p reg tt) st = snd (register sub p reg tt st)"
| "step sub (SetEnabled r b) st = set_enabled r b st"
| "step sub (TabChanged tab) st = notebook_tab_changed sub tab st"
| "step sub (SetStrVar v x) st = str_var_set v x st"
| "step sub (SetBoolVar v b) st = bool_var_set v b st"
| "step sub NewStrVar st = snd (new_str_var st)"
| "step sub NewBoolVar st = snd (new_bool_var st)"
| "step sub (KeyPressed r) st = snd (bind_callback r st)"

definition run :: "(tabcls \<Rightarrow> tabcls \<Rightarrow> bool) \<Rightarrow> op list \<Rightarrow> state \<Rightarrow> state" where
  "run sub ops st = fold (step sub) ops st"

subsection \<open>Invariants\<close>

text \<open>The \<open>enabled\<close> flag of the action stored under a reference.\<close>

definition enabled_of :: "state \<Rightarrow> action_ref \<Rightarrow> bool option" where
  "enabled_of st r = map_option enabled (map_of (actions st) r)"

text \<open>
  What the module keeps true of its own data, from the empty registry on and through
  every step (\<open>wf_init_state\<close>, \<open>wf_run\<close> below): an action is stored under its own
  path, which neither starts nor ends with \<open>/\<close>, and a choice action has its trace; no
  action has two handlers of the tab change, and every handler belongs to a stored
  action; no action has two traces, and every trace belongs to a stored choice action
  with the variable and the choices of the trace.
\<close>

definition wf :: "state \<Rightarrow> bool" where
  "wf st =
     (list_all
        (\<lambda>k. case map_of (actions st) k of
                None \<Rightarrow> False
              | Some a \<Rightarrow>
                  path a = k \<and> \<not> startswith k CHR ''/'' \<and> \<not> endswith k CHR ''/'' \<and>
                  (case payload a of
                     OfChoice v cs \<Rightarrow> (v, k, cs) \<in> set (traces st)
                   | _ \<Rightarrow> True))
        (map fst (actions st)) \<and>
      distinct (map fst (tab_handlers st)) \<and>
      list_all (\<lambda>h. registered st (fst h)) (tab_handlers st) \<and>
      distinct (map (\<lambda>t. fst (snd t)) (traces st)) \<and>
      list_all
        (\<lambda>t. map_option payload (map_of (actions st) (fst (snd t))) =
               Some (OfChoice (fst t) (snd (snd t))))
        (traces st))"

text \<open>
  The variables that tkinter will create next have no trace yet: every traced variable
  has a number below the counter. This holds from the empty registry on, as long as
  the variables that callers pass exist (\<open>fresh_init_state\<close>, \<open>fresh_step\<close> below).
\<close>

definition fresh :: "state \<Rightarrow> bool" where
  "fresh st = list_all (\<lambda>t. fst t < varnum st) (traces st)"

text \<open>
  The part of an entry point that comes before its call of \<open>_add_any_action\<close>, when the
  checks of \<open>args_ok\<close> pass: the payload and the key binding it passes on, and the state
  in which it passes them.
\<close>

fun prepare :: "registration \<Rightarrow> state \<Rightarrow> payload \<times> string option \<times> state" where
  "prepare (AddCommand cb b) st = (OfCommand cb, b, st)"
| "prepare (AddYesNo d b None) st =
     (case new_bool_var st of (v, st1) \<Rightarrow>
        (OfYesNo v, b, (case d of None \<Rightarrow> st1 | Some x \<Rightarrow> bool_var_set v x st1)))"
| "prepare (AddYesNo d b (Some v)) st =
     (OfYesNo v, b, (case d of None \<Rightarrow> st | Some x \<Rightarrow> bool_var_set v x st))"
| "prepare (AddChoice cs d None) st =
     (case new_str_var st of (v, st1) \<Rightarrow>
        (OfChoice v cs, None, str_var_set v (case d of None \<Rightarrow> hd cs | Some x \<Rightarrow> x) st1))"
| "prepare (AddChoice cs d (Some v)) st =
     (OfChoice v cs, None, (case d of None \<Rightarrow> st | Some x \<Rightarrow> str_var_set v x st))"

text \<open>The exception of an entry point whose own checks fail.\<close>

fun arg_error :: "registration \<Rightarrow> error" where
  "arg_error (AddChoice cs None None) = IndexError"
| "arg_error (AddChoice cs d v) = InvalidChoiceError"
| "arg_error reg = ConfigurationError"

subsection \<open>An example of tab classes\<close>

text \<open>
  \<open>tabtypes\<close> is a sequence of \<open>Type[tabs.Tab]\<close>: every tab class is \<open>Tab\<close> or inherits
  from it. The example has no other inheritance.
\<close>

definition example_sub :: "tabcls \<Rightarrow> tabcls \<Rightarrow> bool" where
  "example_sub c d = (c = d \<or> d = ''Tab'')"

text \<open>The value of \<open>enabled\<close> that \<open>_add_any_action\<close> leaves in a new action.\<close>

definition initially_enabled ::
  "(tabcls \<Rightarrow> tabcls \<Rightarrow> bool) \<Rightarrow> tabcls option list option \<Rightarrow> state \<Rightarrow> bool" where
  "initially_enabled sub tt st =
     (case tt of None \<Rightarrow> True | Some ts \<Rightarrow> isinstance sub (selected st) (actual_tabtypes ts))"

section \<open>Lemmas\<close>

subsection \<open>Strings\<close>

lemma rstrip_keep: "\<not> endswith p c \<Longrightarrow> rstrip p c = p"
  by (cases p rule: rev_cases) (simp_all add: rstrip_def endswith_def)

lemma rstrip_replicate: "\<not> endswith p c \<Longrightarrow> rstrip (p @ replicate n c) c = p"
  by (cases p rule: rev_cases) (simp_all add: rstrip_def endswith_def dropWhile_append3)

subsection \<open>The enabled setter\<close>

lemma map_of_set_enabled:
  "map_of (actions (set_enabled r b st)) q =
     (if q = r then map_option (\<lambda>a. a\<lparr>enabled := b\<rparr>) (map_of (actions st) r)
      else map_of (actions st) q)"
  by (auto simp: set_enabled_def event_generate_def update_conv' split: option.splits)

lemma keys_set_enabled: "map fst (actions (set_enabled r b st)) = map fst (actions st)"
proof (cases "map_of (actions st) r")
  case None
  then show ?thesis by (simp add: set_enabled_def)
next
  case (Some a)
  then have "r \<in> set (map fst (actions st))"
    by (metis map_of_eq_None_iff option.distinct(1) set_map)
  with Some show ?thesis
    by (simp add: set_enabled_def event_generate_def update_keys)
qed

lemma set_enabled_frame:
  "warnings (set_enabled r b st) = warnings st"
  "selected (set_enabled r b st) = selected st"
  "tab_handlers (set_enabled r b st) = tab_handlers st"
  "all_bindings (set_enabled r b st) = all_bindings st"
  "text_bindings (set_enabled r b st) = text_bindings st"
  "bool_vars (set_enabled r b st) = bool_vars st"
  "str_vars (set_enabled r b st) = str_vars st"
  "traces (set_enabled r b st) = traces st"
  "varnum (set_enabled r b st) = varnum st"
  "calls (set_enabled r b st) = calls st"
  by (simp_all add: set_enabled_def event_generate_def split: option.splits)

lemma events_set_enabled:
  "events (set_enabled r b st) =
     events st @
       (case map_of (actions st) r of
          None \<Rightarrow> []
        | Some a \<Rightarrow>
            if enabled a = b then []
            else [if b then ActionEnabled (path a) else ActionDisabled (path a)])"
  by (simp add: set_enabled_def event_generate_def split: option.splits)

lemma registered_set_enabled: "registered (set_enabled r b st) q = registered st q"
  by (simp add: registered_def map_of_set_enabled)

subsection \<open>Writes to variables\<close>

lemma var_set_check_eq:
  "var_set_check t st =
     (if str_vars st (fst t) \<notin> set (snd (snd t))
      then st\<lparr>warnings := warnings st @ [(fst (snd t), str_vars st (fst t))]\<rparr>
      else st)"
  by (cases t) (simp add: var_set_check_def)

lemma fold_var_set_check:
  "fold var_set_check ts st =
     st\<lparr>warnings := warnings st @
          map (\<lambda>t. (fst (snd t), str_vars st (fst t)))
            (filter (\<lambda>t. str_vars st (fst t) \<notin> set (snd (snd t))) ts)\<rparr>"
proof (induction ts arbitrary: st)
  case Nil
  show ?case by simp
next
  case (Cons t ts)
  have "fold var_set_check (t # ts) st = fold var_set_check ts (var_set_check t st)"
    by simp
  also have "\<dots> = (var_set_check t st)\<lparr>warnings := warnings (var_set_check t st) @
          map (\<lambda>t'. (fst (snd t'), str_vars (var_set_check t st) (fst t')))
            (filter (\<lambda>t'. str_vars (var_set_check t st) (fst t') \<notin> set (snd (snd t'))) ts)\<rparr>"
    by (rule Cons.IH)
  also have "\<dots> = st\<lparr>warnings := warnings st @
          map (\<lambda>t. (fst (snd t), str_vars st (fst t)))
            (filter (\<lambda>t. str_vars st (fst t) \<notin> set (snd (snd t))) (t # ts))\<rparr>"
    by (simp add: var_set_check_eq)
  finally show ?case .
qed

lemma str_var_set_eq:
  "str_var_set v x st =
     st\<lparr>str_vars := (str_vars st)(v := x),
        warnings := warnings st @
          map (\<lambda>t. (fst (snd t), x))
            (filter (\<lambda>t. fst t = v \<and> x \<notin> set (snd (snd t))) (traces st))\<rparr>"
proof -
  have "map (\<lambda>t. (fst (snd t), if fst t = v then x else str_vars st (fst t)))
          (filter (\<lambda>t. (if fst t = v then x else str_vars st (fst t)) \<notin> set (snd (snd t)))
             (filter (\<lambda>t. fst t = v) (traces st))) =
        map (\<lambda>t. (fst (snd t), x))
          (filter (\<lambda>t. fst t = v \<and> x \<notin> set (snd (snd t))) (traces st))"
    by (induction "traces st") (auto simp: filter_map comp_def intro: map_cong filter_cong)
  then show ?thesis
    by (simp add: str_var_set_def fold_var_set_check fun_upd_def)
qed

lemma bool_var_set_frame:
  "actions (bool_var_set v b st) = actions st"
  "events (bool_var_set v b st) = events st"
  "warnings (bool_var_set v b st) = warnings st"
  "selected (bool_var_set v b st) = selected st"
  "tab_handlers (bool_var_set v b st) = tab_handlers st"
  "all_bindings (bool_var_set v b st) = all_bindings st"
  "text_bindings (bool_var_set v b st) = text_bindings st"
  "bool_vars (bool_var_set v b st) = (bool_vars st)(v := b)"
  "str_vars (bool_var_set v b st) = str_vars st"
  "traces (bool_var_set v b st) = traces st"
  "varnum (bool_var_set v b st) = varnum st"
  "calls (bool_var_set v b st) = calls st"
  by (simp_all add: bool_var_set_def)

lemma str_var_set_frame:
  "actions (str_var_set v x st) = actions st"
  "events (str_var_set v x st) = events st"
  "selected (str_var_set v x st) = selected st"
  "tab_handlers (str_var_set v x st) = tab_handlers st"
  "all_bindings (str_var_set v x st) = all_bindings st"
  "text_bindings (str_var_set v x st) = text_bindings st"
  "bool_vars (str_var_set v x st) = bool_vars st"
  "str_vars (str_var_set v x st) = (str_vars st)(v := x)"
  "traces (str_var_set v x st) = traces st"
  "varnum (str_var_set v x st) = varnum st"
  "calls (str_var_set v x st) = calls st"
  by (simp_all add: str_var_set_eq)

lemma warnings_str_var_set:
  "warnings (str_var_set v x st) =
     warnings st @
       map (\<lambda>t. (fst (snd t), x))
         (filter (\<lambda>t. fst t = v \<and> x \<notin> set (snd (snd t))) (traces st))"
  by (simp add: str_var_set_eq)

subsection \<open>The shared registration\<close>

lemma add_any_action_invalid:
  "startswith p CHR ''/'' \<or> endswith p CHR ''/'' \<Longrightarrow>
   add_any_action sub p pl b tt st = (Inl InvalidPathError, st)"
  by (simp add: add_any_action_def)

lemma add_any_action_duplicate:
  "\<not> startswith p CHR ''/'' \<Longrightarrow> \<not> endswith p CHR ''/'' \<Longrightarrow> registered st p \<Longrightarrow>
   add_any_action sub p pl b tt st = (Inl DuplicatePathError, st)"
  by (simp add: add_any_action_def)

lemma add_any_action_new:
  assumes "\<not> startswith p CHR ''/''" "\<not> endswith p CHR ''/''" "\<not> registered st p"
  shows
    "fst (add_any_action sub p pl b tt st) =
       (if b \<noteq> None \<and> kind_of pl = Choice then Inl AssertionError else Inr p)"
    "map_of (actions (snd (add_any_action sub p pl b tt st))) =
       (map_of (actions st))(p \<mapsto>
          \<lparr>path = p, binding = b, enabled = initially_enabled sub tt st, payload = pl\<rparr>)"
    "map fst (actions (snd (add_any_action sub p pl b tt st))) = map fst (actions st) @ [p]"
    "events (snd (add_any_action sub p pl b tt st)) =
       events st @ NewAction p # (if initially_enabled sub tt st then [] else [ActionDisabled p])"
    "tab_handlers (snd (add_any_action sub p pl b tt st)) =
       tab_handlers st @ (case tt of None \<Rightarrow> [] | Some ts \<Rightarrow> [(p, actual_tabtypes ts)])"
    "traces (snd (add_any_action sub p pl b tt st)) =
       (case pl of OfChoice v cs \<Rightarrow> [(v, p, cs)] | _ \<Rightarrow> []) @ traces st"
    "all_bindings (snd (add_any_action sub p pl b tt st)) =
       all_bindings st @
         (case b of None \<Rightarrow> [] | Some key \<Rightarrow> if kind_of pl = Choice then [] else [(key, p)])"
    "text_bindings (snd (add_any_action sub p pl b tt st)) =
       (case b of None \<Rightarrow> text_bindings st
        | Some key \<Rightarrow> if kind_of pl = Choice then text_bindings st
                       else AList.update key p (text_bindings st))"
    "warnings (snd (add_any_action sub p pl b tt st)) = warnings st"
    "selected (snd (add_any_action sub p pl b tt st)) = selected st"
    "bool_vars (snd (add_any_action sub p pl b tt st)) = bool_vars st"
    "str_vars (snd (add_any_action sub p pl b tt st)) = str_vars st"
    "varnum (snd (add_any_action sub p pl b tt st)) = varnum st"
    "calls (snd (add_any_action sub p pl b tt st)) = calls st"
proof -
  have nk: "p \<notin> set (map fst (actions st))"
    using assms(3) by (simp add: registered_def map_of_eq_None_iff)
  define a where "a = \<lparr>path = p, binding = b, enabled = True, payload = pl\<rparr>"
  define st1 where "st1 = snd (action_init p pl b st)"
  define st3 where "st3 = event_generate (NewAction p) (st1\<lparr>actions := AList.update p a (actions st1)\<rparr>)"
  define st4 where "st4 = auto_enable sub p tt st3"
  have ai: "action_init p pl b st = (a, st1)"
    by (simp add: a_def st1_def action_init_def)
  have res: "add_any_action sub p pl b tt st =
      (case b of None \<Rightarrow> (Inr p, st4)
       | Some key \<Rightarrow> if kind_of pl = Command \<or> kind_of pl = YesNo
                      then (Inr p, install_binding p key st4) else (Inl AssertionError, st4))"
    using assms by (simp add: add_any_action_def ai st3_def st4_def Let_def split: option.splits)
  have st1: "st1 = st\<lparr>traces := (case pl of OfChoice v cs \<Rightarrow> [(v, p, cs)] | _ \<Rightarrow> []) @ traces st\<rparr>"
    by (simp add: st1_def action_init_def trace_add_def split: payload.splits)
  have m3: "map_of (actions st3) = (map_of (actions st))(p \<mapsto> a)"
    by (simp add: st3_def event_generate_def st1 update_conv')
  have k3: "map fst (actions st3) = map fst (actions st) @ [p]"
    using nk by (simp add: st3_def event_generate_def st1 update_keys)
  have e3: "events st3 = events st @ [NewAction p]" "selected st3 = selected st"
    "tab_handlers st3 = tab_handlers st" "traces st3 = traces st1"
    "all_bindings st3 = all_bindings st" "text_bindings st3 = text_bindings st"
    "warnings st3 = warnings st" "bool_vars st3 = bool_vars st" "str_vars st3 = str_vars st"
    "varnum st3 = varnum st" "calls st3 = calls st"
    by (simp_all add: st3_def event_generate_def st1)
  have m4: "map_of (actions st4) = (map_of (actions st))(p \<mapsto> a\<lparr>enabled := initially_enabled sub tt st\<rparr>)"
    by (auto simp: st4_def auto_enable_def enable_or_disable_def initially_enabled_def Let_def
        map_of_set_enabled m3 e3 a_def fun_eq_iff split: option.splits)
  have k4: "map fst (actions st4) = map fst (actions st) @ [p]"
    by (simp add: st4_def auto_enable_def enable_or_disable_def Let_def keys_set_enabled k3
        split: option.splits)
  have e4: "events st4 = events st @ NewAction p # (if initially_enabled sub tt st then [] else [ActionDisabled p])"
    by (simp add: st4_def auto_enable_def enable_or_disable_def initially_enabled_def Let_def
        events_set_enabled m3 e3 a_def split: option.splits)
  have h4: "tab_handlers st4 = tab_handlers st @ (case tt of None \<Rightarrow> [] | Some ts \<Rightarrow> [(p, actual_tabtypes ts)])"
    by (simp add: st4_def auto_enable_def enable_or_disable_def Let_def set_enabled_frame e3
        split: option.splits)
  have f4: "traces st4 = traces st1" "all_bindings st4 = all_bindings st"
    "text_bindings st4 = text_bindings st"
    "warnings st4 = warnings st" "selected st4 = selected st" "bool_vars st4 = bool_vars st"
    "str_vars st4 = str_vars st" "varnum st4 = varnum st" "calls st4 = calls st"
    by (simp_all add: st4_def auto_enable_def enable_or_disable_def Let_def set_enabled_frame e3
        split: option.splits)
  have kd: "kind_of pl = Command \<or> kind_of pl = YesNo \<longleftrightarrow> kind_of pl \<noteq> Choice"
    by (cases pl) simp_all
  show "fst (add_any_action sub p pl b tt st) =
       (if b \<noteq> None \<and> kind_of pl = Choice then Inl AssertionError else Inr p)"
    by (simp add: res kd split: option.splits)
  show "map_of (actions (snd (add_any_action sub p pl b tt st))) =
       (map_of (actions st))(p \<mapsto>
          \<lparr>path = p, binding = b, enabled = initially_enabled sub tt st, payload = pl\<rparr>)"
    by (simp add: res kd install_binding_def m4 a_def split: option.splits)
  show "map fst (actions (snd (add_any_action sub p pl b tt st))) = map fst (actions st) @ [p]"
    by (simp add: res kd install_binding_def k4 split: option.splits)
  show "events (snd (add_any_action sub p pl b tt st)) =
       events st @ NewAction p # (if initially_enabled sub tt st then [] else [ActionDisabled p])"
    by (simp add: res kd install_binding_def e4 split: option.splits)
  show "tab_handlers (snd (add_any_action sub p pl b tt st)) =
       tab_handlers st @ (case tt of None \<Rightarrow> [] | Some ts \<Rightarrow> [(p, actual_tabtypes ts)])"
    by (simp add: res kd install_binding_def h4 split: option.splits)
  show "traces (snd (add_any_action sub p pl b tt st)) =
       (case pl of OfChoice v cs \<Rightarrow> [(v, p, cs)] | _ \<Rightarrow> []) @ traces st"
    by (simp add: res kd install_binding_def f4 st1 split: option.splits)
  show "all_bindings (snd (add_any_action sub p pl b tt st)) =
       all_bindings st @
         (case b of None \<Rightarrow> [] | Some key \<Rightarrow> if kind_of pl = Choice then [] else [(key, p)])"
    by (simp add: res kd install_binding_def f4 split: option.splits)
  show "text_bindings (snd (add_any_action sub p pl b tt st)) =
       (case b of None \<Rightarrow> text_bindings st
        | Some key \<Rightarrow> if kind_of pl = Choice then text_bindings st
                       else AList.update key p (text_bindings st))"
    by (simp add: res kd install_binding_def f4 split: option.splits)
  show "warnings (snd (add_any_action sub p pl b tt st)) = warnings st"
    "selected (snd (add_any_action sub p pl b tt st)) = selected st"
    "bool_vars (snd (add_any_action sub p pl b tt st)) = bool_vars st"
    "str_vars (snd (add_any_action sub p pl b tt st)) = str_vars st"
    "varnum (snd (add_any_action sub p pl b tt st)) = varnum st"
    "calls (snd (add_any_action sub p pl b tt st)) = calls st"
    by (simp_all add: res kd install_binding_def f4 split: option.splits)
qed

subsection \<open>The entry points\<close>

lemma register_eq:
  "register sub p reg tt st =
     (if args_ok st reg
      then (case prepare reg st of (pl, b, st1) \<Rightarrow> add_any_action sub p pl b tt st1)
      else (Inl (arg_error reg), st))"
proof (cases reg)
  case (AddCommand cb b)
  then show ?thesis by (simp add: add_command_def)
next
  case (AddYesNo d b v)
  then show ?thesis
    by (cases v; cases d) (simp_all add: add_yesno_def split: prod.splits)
next
  case (AddChoice cs d v)
  then show ?thesis
    by (cases v; cases d; cases cs) (simp_all add: add_choice_def split: prod.splits)
qed

lemma prepare_frame:
  assumes "prepare reg st = (pl, b, st1)"
  shows "actions st1 = actions st" "events st1 = events st" "selected st1 = selected st"
    "tab_handlers st1 = tab_handlers st" "all_bindings st1 = all_bindings st"
    "text_bindings st1 = text_bindings st" "traces st1 = traces st" "calls st1 = calls st"
    "kind_of pl = reg_kind reg" "kind_of pl = Choice \<longrightarrow> b = None"
    "registered st1 = registered st" "b = reg_binding reg"
  using assms
  by (cases "(reg, st)" rule: prepare.cases;
      auto simp: new_bool_var_def new_str_var_def bool_var_set_frame str_var_set_frame
        registered_def fun_eq_iff split: option.splits)+

lemma register_ok:
  assumes "register sub p reg tt st = (Inr r, st')"
  shows "r = p \<and> \<not> startswith p CHR ''/'' \<and> \<not> endswith p CHR ''/'' \<and> \<not> registered st p \<and>
         args_ok st reg \<and>
         (\<exists>b. map_of (actions st') =
            (map_of (actions st))(p \<mapsto>
               \<lparr>path = p, binding = b, enabled = initially_enabled sub tt st,
                 payload = fst (prepare reg st)\<rparr>))"
proof -
  obtain pl b st1 where pr: "prepare reg st = (pl, b, st1)"
    by (cases "prepare reg st") auto
  from assms have ok: "args_ok st reg"
    by (auto simp: register_eq split: if_splits)
  with assms pr have aa: "add_any_action sub p pl b tt st1 = (Inr r, st')"
    by (simp add: register_eq)
  have v: "\<not> startswith p CHR ''/''" "\<not> endswith p CHR ''/''"
    using aa add_any_action_invalid[of p sub pl b tt st1] by auto
  have nr: "\<not> registered st1 p"
    using aa v add_any_action_duplicate[of p st1 sub pl b tt] by auto
  have ie: "initially_enabled sub tt st1 = initially_enabled sub tt st"
    by (simp add: initially_enabled_def prepare_frame(3)[OF pr] split: option.splits)
  from add_any_action_new(1,2)[OF v nr, of sub pl b tt] aa
  have "r = p" and
    "map_of (actions st') = (map_of (actions st1))(p \<mapsto>
          \<lparr>path = p, binding = b, enabled = initially_enabled sub tt st1, payload = pl\<rparr>)"
    by (auto split: if_splits)
  with v nr ok pr ie show ?thesis
    by (auto simp: prepare_frame(1)[OF pr] prepare_frame(11)[OF pr])
qed

lemmas run_defs =
  add_command_def add_yesno_def add_choice_def add_any_action_def action_init_def
  auto_enable_def enable_or_disable_def set_enabled_def event_generate_def
  install_binding_def trace_add_def new_bool_var_def new_str_var_def bool_var_set_def
  str_var_set_def var_set_check_def registered_def startswith_def endswith_def
  isinstance_def actual_tabtypes_def init_state_def get_action_def rstrip_def kind_def
  notebook_tab_changed_def bind_callback_def example_sub_def Let_def

lemma register_then_get_action:
  assumes "register sub p reg tt st = (Inr r, st')"
  shows "\<exists>a. get_action p st' = Inr a \<and> path a = p \<and> kind a = reg_kind reg"
proof -
  obtain pl b st1 where pr: "prepare reg st = (pl, b, st1)"
    by (cases "prepare reg st") auto
  from register_ok[OF assms] obtain b' where
    e: "\<not> endswith p CHR ''/''" and
    m: "map_of (actions st') p =
          Some \<lparr>path = p, binding = b', enabled = initially_enabled sub tt st,
                payload = fst (prepare reg st)\<rparr>"
    by auto
  show ?thesis
    using m prepare_frame(9)[OF pr] pr
    by (simp add: get_action_def rstrip_keep[OF e] kind_def)
qed

subsection \<open>The invariant\<close>

lemma keys_all:
  "list_all (\<lambda>k. case map_of al k of None \<Rightarrow> False | Some a \<Rightarrow> P k a) (map fst al) \<longleftrightarrow>
   (\<forall>k a. map_of al k = Some a \<longrightarrow> P k a)"
proof
  assume L: "list_all (\<lambda>k. case map_of al k of None \<Rightarrow> False | Some a \<Rightarrow> P k a) (map fst al)"
  show "\<forall>k a. map_of al k = Some a \<longrightarrow> P k a"
  proof (intro allI impI)
    fix k a assume m: "map_of al k = Some a"
    then have "k \<in> set (map fst al)" by (metis map_of_eq_None_iff option.distinct(1) set_map)
    with L have "case map_of al k of None \<Rightarrow> False | Some a \<Rightarrow> P k a"
      unfolding list_all_iff by force
    with m show "P k a" by simp
  qed
next
  assume R: "\<forall>k a. map_of al k = Some a \<longrightarrow> P k a"
  show "list_all (\<lambda>k. case map_of al k of None \<Rightarrow> False | Some a \<Rightarrow> P k a) (map fst al)"
    unfolding list_all_iff
  proof
    fix k assume "k \<in> set (map fst al)"
    then obtain a where "map_of al k = Some a"
      by (metis map_of_eq_None_iff not_None_eq set_map)
    with R show "case map_of al k of None \<Rightarrow> False | Some a \<Rightarrow> P k a" by simp
  qed
qed

lemma wf_iff:
  "wf st \<longleftrightarrow>
     (\<forall>k a. map_of (actions st) k = Some a \<longrightarrow>
        path a = k \<and> \<not> startswith k CHR ''/'' \<and> \<not> endswith k CHR ''/'' \<and>
        (\<forall>v cs. payload a = OfChoice v cs \<longrightarrow> (v, k, cs) \<in> set (traces st))) \<and>
     distinct (map fst (tab_handlers st)) \<and>
     (\<forall>h \<in> set (tab_handlers st). registered st (fst h)) \<and>
     distinct (map (\<lambda>t. fst (snd t)) (traces st)) \<and>
     (\<forall>v p cs. (v, p, cs) \<in> set (traces st) \<longrightarrow>
        (\<exists>a. map_of (actions st) p = Some a \<and> payload a = OfChoice v cs))"
proof -
  have pl: "\<And>a k. (case payload a of OfChoice v cs \<Rightarrow> (v, k, cs) \<in> set (traces st) | _ \<Rightarrow> True) \<longleftrightarrow>
           (\<forall>v cs. payload a = OfChoice v cs \<longrightarrow> (v, k, cs) \<in> set (traces st))"
    by (simp split: payload.splits)
  have tr: "list_all (\<lambda>t. map_option payload (map_of (actions st) (fst (snd t))) =
               Some (OfChoice (fst t) (snd (snd t)))) (traces st) \<longleftrightarrow>
        (\<forall>v p cs. (v, p, cs) \<in> set (traces st) \<longrightarrow>
        (\<exists>a. map_of (actions st) p = Some a \<and> payload a = OfChoice v cs))"
    unfolding list_all_iff by force
  show ?thesis
    unfolding wf_def pl unfolding keys_all tr by (simp add: list_all_iff)
qed

lemma wf_cong:
  "actions st' = actions st \<Longrightarrow> tab_handlers st' = tab_handlers st \<Longrightarrow>
   traces st' = traces st \<Longrightarrow> wf st' = wf st"
  by (simp add: wf_iff registered_def)

lemma wf_init_state: "wf init_state"
  by (simp add: wf_def init_state_def)

lemma wf_set_enabled:
  assumes "wf st"
  shows "wf (set_enabled r b st)"
proof -
  let ?st' = "set_enabled r b st"
  from assms have
    A: "\<And>k a. map_of (actions st) k = Some a \<Longrightarrow>
        path a = k \<and> \<not> startswith k CHR ''/'' \<and> \<not> endswith k CHR ''/'' \<and>
        (\<forall>v cs. payload a = OfChoice v cs \<longrightarrow> (v, k, cs) \<in> set (traces st))" and
    H: "distinct (map fst (tab_handlers st))"
       "\<forall>h \<in> set (tab_handlers st). registered st (fst h)" and
    T: "distinct (map (\<lambda>t. fst (snd t)) (traces st))"
       "\<And>v p cs. (v, p, cs) \<in> set (traces st) \<Longrightarrow>
        (\<exists>a. map_of (actions st) p = Some a \<and> payload a = OfChoice v cs)"
    unfolding wf_iff by blast+
  have A': "\<forall>k a. map_of (actions ?st') k = Some a \<longrightarrow>
        path a = k \<and> \<not> startswith k CHR ''/'' \<and> \<not> endswith k CHR ''/'' \<and>
        (\<forall>v cs. payload a = OfChoice v cs \<longrightarrow> (v, k, cs) \<in> set (traces ?st'))"
  proof (intro allI impI)
    fix k a' assume m: "map_of (actions ?st') k = Some a'"
    then obtain a where a: "map_of (actions st) k = Some a" "path a' = path a" "payload a' = payload a"
      by (auto simp: map_of_set_enabled split: if_splits)
    from A[OF a(1)] a(2,3)
    show "path a' = k \<and> \<not> startswith k CHR ''/'' \<and> \<not> endswith k CHR ''/'' \<and>
        (\<forall>v cs. payload a' = OfChoice v cs \<longrightarrow> (v, k, cs) \<in> set (traces ?st'))"
      by (simp add: set_enabled_frame)
  qed
  have T': "\<forall>v p cs. (v, p, cs) \<in> set (traces ?st') \<longrightarrow>
        (\<exists>a. map_of (actions ?st') p = Some a \<and> payload a = OfChoice v cs)"
  proof (intro allI impI)
    fix v p cs assume "(v, p, cs) \<in> set (traces ?st')"
    then have "(v, p, cs) \<in> set (traces st)" by (simp add: set_enabled_frame)
    from T(2)[OF this] obtain a where "map_of (actions st) p = Some a" "payload a = OfChoice v cs"
      by blast
    then show "\<exists>a. map_of (actions ?st') p = Some a \<and> payload a = OfChoice v cs"
      by (auto simp: map_of_set_enabled)
  qed
  show ?thesis
    unfolding wf_iff
    using A' T' H T(1) by (simp add: set_enabled_frame registered_set_enabled)
qed

lemma wf_fold_enable_or_disable:
  "wf st \<Longrightarrow> wf (fold (enable_or_disable sub) hs st)"
proof (induction hs arbitrary: st)
  case Nil
  then show ?case by simp
next
  case (Cons h hs)
  have "wf (enable_or_disable sub h st)"
    using Cons.prems by (cases h) (simp add: enable_or_disable_def wf_set_enabled)
  then show ?case by (simp add: Cons.IH)
qed

lemma wf_notebook_tab_changed: "wf st \<Longrightarrow> wf (notebook_tab_changed sub tab st)"
proof -
  assume w: "wf st"
  have "wf (st\<lparr>selected := tab\<rparr>)"
    using w by (simp add: wf_cong[of "st\<lparr>selected := tab\<rparr>" st])
  then show ?thesis
    unfolding notebook_tab_changed_def by (rule wf_fold_enable_or_disable)
qed

lemma wf_add_any_action:
  assumes "wf st"
  shows "wf (snd (add_any_action sub p pl b tt st))"
proof (cases "startswith p CHR ''/'' \<or> endswith p CHR ''/''")
  case True
  then show ?thesis using assms by (simp add: add_any_action_invalid)
next
  case False
  then have v: "\<not> startswith p CHR ''/''" "\<not> endswith p CHR ''/''" by simp_all
  show ?thesis
  proof (cases "registered st p")
    case True
    then show ?thesis using assms v by (simp add: add_any_action_duplicate)
  next
    case nr: False
    let ?st' = "snd (add_any_action sub p pl b tt st)"
    let ?a = "\<lparr>path = p, binding = b, enabled = initially_enabled sub tt st, payload = pl\<rparr>"
    note new = add_any_action_new[OF v nr, of sub pl b tt]
    from assms have
      A: "\<And>k a. map_of (actions st) k = Some a \<Longrightarrow>
          path a = k \<and> \<not> startswith k CHR ''/'' \<and> \<not> endswith k CHR ''/'' \<and>
          (\<forall>v cs. payload a = OfChoice v cs \<longrightarrow> (v, k, cs) \<in> set (traces st))" and
      H: "distinct (map fst (tab_handlers st))"
         "\<And>h. h \<in> set (tab_handlers st) \<Longrightarrow> registered st (fst h)" and
      T: "distinct (map (\<lambda>t. fst (snd t)) (traces st))"
         "\<And>v p cs. (v, p, cs) \<in> set (traces st) \<Longrightarrow>
          (\<exists>a. map_of (actions st) p = Some a \<and> payload a = OfChoice v cs)"
      unfolding wf_iff by blast+
    have np: "map_of (actions st) p = None"
      using nr by (simp add: registered_def)
    have reg': "\<And>q. registered ?st' q \<longleftrightarrow> q = p \<or> registered st q"
      by (simp add: registered_def new(2))
    have tr': "set (traces ?st') = (case pl of OfChoice v cs \<Rightarrow> {(v, p, cs)} | _ \<Rightarrow> {}) \<union> set (traces st)"
      by (simp add: new(6) split: payload.splits)
    have A': "\<forall>k a. map_of (actions ?st') k = Some a \<longrightarrow>
          path a = k \<and> \<not> startswith k CHR ''/'' \<and> \<not> endswith k CHR ''/'' \<and>
          (\<forall>v cs. payload a = OfChoice v cs \<longrightarrow> (v, k, cs) \<in> set (traces ?st'))"
    proof (intro allI impI)
      fix k a assume m: "map_of (actions ?st') k = Some a"
      show "path a = k \<and> \<not> startswith k CHR ''/'' \<and> \<not> endswith k CHR ''/'' \<and>
          (\<forall>v cs. payload a = OfChoice v cs \<longrightarrow> (v, k, cs) \<in> set (traces ?st'))"
      proof (cases "k = p")
        case True
        with m have "a = ?a" by (simp add: new(2))
        moreover have "\<forall>v cs. pl = OfChoice v cs \<longrightarrow> (v, p, cs) \<in> set (traces ?st')"
          using tr' by (cases pl) auto
        ultimately show ?thesis using True v by simp
      next
        case False
        with m have "map_of (actions st) k = Some a" by (simp add: new(2))
        from A[OF this] show ?thesis by (auto simp: tr')
      qed
    qed
    have hp: "p \<notin> fst ` set (tab_handlers st)"
      using H(2) nr by auto
    have H1': "distinct (map fst (tab_handlers ?st'))"
      using H(1) hp by (simp add: new(5) split: option.splits)
    have H2': "\<forall>h \<in> set (tab_handlers ?st'). registered ?st' (fst h)"
      using H(2) by (auto simp: new(5) reg' split: option.splits)
    have tp: "p \<notin> (\<lambda>t. fst (snd t)) ` set (traces st)"
    proof
      assume "p \<in> (\<lambda>t. fst (snd t)) ` set (traces st)"
      then obtain v cs where "(v, p, cs) \<in> set (traces st)" by force
      from T(2)[OF this] np show False by simp
    qed
    have T1': "distinct (map (\<lambda>t. fst (snd t)) (traces ?st'))"
      using T(1) tp by (simp add: new(6) split: payload.splits)
    have T2': "\<forall>v q cs. (v, q, cs) \<in> set (traces ?st') \<longrightarrow>
          (\<exists>a. map_of (actions ?st') q = Some a \<and> payload a = OfChoice v cs)"
    proof (intro allI impI)
      fix v q cs assume m: "(v, q, cs) \<in> set (traces ?st')"
      show "\<exists>a. map_of (actions ?st') q = Some a \<and> payload a = OfChoice v cs"
      proof (cases "(v, q, cs) \<in> set (traces st)")
        case True
        from T(2)[OF this] obtain a where a: "map_of (actions st) q = Some a" "payload a = OfChoice v cs"
          by blast
        with np have "q \<noteq> p" by auto
        with a show ?thesis by (simp add: new(2))
      next
        case False
        with m have "pl = OfChoice v cs \<and> q = p"
          by (auto simp: tr' split: payload.splits)
        moreover have "map_of (actions ?st') p = Some ?a" by (simp add: new(2))
        ultimately show ?thesis by auto
      qed
    qed
    show ?thesis
      unfolding wf_iff using A' H1' H2' T1' T2' by blast
  qed
qed

lemma wf_prepare:
  assumes "prepare reg st = (pl, b, st1)"
  shows "wf st1 = wf st"
  by (rule wf_cong) (simp_all add: prepare_frame[OF assms])

lemma wf_register: "wf st \<Longrightarrow> wf (snd (register sub p reg tt st))"
proof -
  assume w: "wf st"
  obtain pl b st1 where pr: "prepare reg st = (pl, b, st1)"
    by (cases "prepare reg st") auto
  have "wf st1" using w by (simp add: wf_prepare[OF pr])
  then have "wf (snd (add_any_action sub p pl b tt st1))"
    by (rule wf_add_any_action)
  with w pr show ?thesis by (simp add: register_eq)
qed

lemma wf_bind_callback: "wf st \<Longrightarrow> wf (snd (bind_callback r st))"
proof -
  assume w: "wf st"
  have "wf (snd (bind_callback r st)) = wf st"
    by (rule wf_cong)
      (simp_all add: bind_callback_def bool_var_set_def split: option.splits payload.splits)
  with w show ?thesis by simp
qed

lemma wf_new_var:
  "wf (snd (new_str_var st)) = wf st"
  "wf (snd (new_bool_var st)) = wf st"
  "wf (str_var_set v x st) = wf st"
  "wf (bool_var_set v b st) = wf st"
  by (rule wf_cong; simp add: new_str_var_def new_bool_var_def str_var_set_frame
      bool_var_set_frame)+

lemma wf_step: "wf st \<Longrightarrow> wf (step sub x st)"
proof (cases x)
  case (Register p reg tt)
  assume "wf st" with Register show ?thesis by (simp add: wf_register)
next
  case (SetEnabled r b)
  assume "wf st" with SetEnabled show ?thesis by (simp add: wf_set_enabled)
next
  case (TabChanged tab)
  assume "wf st" with TabChanged show ?thesis by (simp add: wf_notebook_tab_changed)
next
  case (SetStrVar v s)
  assume "wf st" with SetStrVar show ?thesis
    by (simp add: wf_new_var)
next
  case (SetBoolVar v b)
  assume "wf st" with SetBoolVar show ?thesis
    by (simp add: wf_new_var)
next
  case NewStrVar
  assume "wf st" with NewStrVar show ?thesis
    by (simp add: wf_new_var)
next
  case NewBoolVar
  assume "wf st" with NewBoolVar show ?thesis
    by (simp add: wf_new_var)
next
  case (KeyPressed r)
  assume "wf st" with KeyPressed show ?thesis by (simp add: wf_bind_callback)
qed

lemma wf_run: "wf st \<Longrightarrow> wf (run sub xs st)"
  unfolding run_def by (induction xs arbitrary: st) (simp_all add: wf_step)

lemma filter_distinct_key:
  "distinct (map f xs) \<Longrightarrow> x \<in> set xs \<Longrightarrow> filter (\<lambda>y. f y = f x) xs = [x]"
proof (induction xs)
  case Nil
  then show ?case by simp
next
  case (Cons y ys)
  show ?case
  proof (cases "y = x")
    case True
    with Cons.prems have "f x \<notin> f ` set ys" by simp
    then have "\<forall>z \<in> set ys. f z \<noteq> f x" by (metis imageI)
    then have "filter (\<lambda>y. f y = f x) ys = []" by (simp add: filter_empty_conv)
    with True show ?thesis by simp
  next
    case False
    with Cons.prems have "x \<in> set ys" "f y \<noteq> f x" by auto
    with Cons show ?thesis by simp
  qed
qed

subsection \<open>New variables are new\<close>

lemma prepare_vars:
  assumes "prepare reg st = (pl, b, st1)" and "fresh st"
  shows "\<forall>w. w < varnum st \<and> overwrites reg \<noteq> Some w \<longrightarrow>
           bool_vars st1 w = bool_vars st w \<and> str_vars st1 w = str_vars st w"
    and "overwrites reg = None \<longrightarrow> warnings st1 = warnings st"
proof -
  have nt: "filter (\<lambda>t. fst t = varnum st \<and> P t) (traces st) = []" for P
    using assms(2) by (auto simp: fresh_def list_all_iff filter_empty_conv)
  show "\<forall>w. w < varnum st \<and> overwrites reg \<noteq> Some w \<longrightarrow>
           bool_vars st1 w = bool_vars st w \<and> str_vars st1 w = str_vars st w"
    using assms(1)
    by (cases "(reg, st)" rule: prepare.cases)
      (auto simp: new_bool_var_def new_str_var_def bool_var_set_frame str_var_set_frame
        split: option.splits)
  show "overwrites reg = None \<longrightarrow> warnings st1 = warnings st"
    using assms(1) nt
    by (cases "(reg, st)" rule: prepare.cases)
      (auto simp: new_bool_var_def new_str_var_def bool_var_set_frame warnings_str_var_set
        split: option.splits)
qed

lemma fresh_mono:
  "fresh st \<Longrightarrow> traces st' = traces st \<Longrightarrow> varnum st \<le> varnum st' \<Longrightarrow> fresh st'"
  by (fastforce simp: fresh_def list_all_iff)

lemma fresh_add_any_action:
  assumes "fresh st" and "\<forall>v cs. pl = OfChoice v cs \<longrightarrow> v < varnum st"
  shows "fresh (snd (add_any_action sub p pl b tt st))"
proof (cases "startswith p CHR ''/'' \<or> endswith p CHR ''/''")
  case True
  then show ?thesis using assms(1) by (simp add: add_any_action_invalid)
next
  case False
  then have v: "\<not> startswith p CHR ''/''" "\<not> endswith p CHR ''/''" by simp_all
  show ?thesis
  proof (cases "registered st p")
    case True
    then show ?thesis using assms(1) v by (simp add: add_any_action_duplicate)
  next
    case False
    note new = add_any_action_new[OF v False, of sub pl b tt]
    show ?thesis
      unfolding fresh_def new(6) new(13)
      using assms by (cases pl) (simp_all add: fresh_def)
  qed
qed

lemma fresh_register:
  assumes "fresh st" and "\<forall>v. reg_var reg = Some v \<longrightarrow> v < varnum st"
  shows "fresh (snd (register sub p reg tt st))"
proof -
  obtain pl b st1 where pr: "prepare reg st = (pl, b, st1)"
    by (cases "prepare reg st") auto
  have n: "varnum st \<le> varnum st1"
    using pr
    by (cases "(reg, st)" rule: prepare.cases)
      (auto simp: new_bool_var_def new_str_var_def bool_var_set_frame
        str_var_set_frame split: option.splits)
  have f1: "fresh st1"
    using assms(1) prepare_frame(7)[OF pr] n by (rule fresh_mono)
  have "\<forall>v cs. pl = OfChoice v cs \<longrightarrow> v < varnum st1"
    using pr assms(2)
    by (cases "(reg, st)" rule: prepare.cases)
      (auto simp: new_bool_var_def new_str_var_def bool_var_set_frame
        str_var_set_frame split: option.splits)
  with f1 have "fresh (snd (add_any_action sub p pl b tt st1))"
    by (simp add: fresh_add_any_action)
  with assms(1) pr show ?thesis by (simp add: register_eq)
qed

lemma fresh_fold_enable_or_disable: "fresh st \<Longrightarrow> fresh (fold (enable_or_disable sub) hs st)"
proof (induction hs arbitrary: st)
  case Nil
  then show ?case by simp
next
  case (Cons h hs)
  have "fresh (enable_or_disable sub h st)"
    using Cons.prems by (cases h) (simp add: enable_or_disable_def fresh_def set_enabled_frame)
  then show ?case by (simp add: Cons.IH)
qed

lemma fresh_step:
  assumes "fresh st" and "\<forall>p reg tt v. x = Register p reg tt \<and> reg_var reg = Some v \<longrightarrow> v < varnum st"
  shows "fresh (step sub x st)"
proof (cases x)
  case (Register p reg tt)
  with assms show ?thesis by (simp add: fresh_register)
next
  case (SetEnabled r b)
  with assms(1) show ?thesis by (simp add: fresh_def set_enabled_frame)
next
  case (TabChanged tab)
  have "fresh (st\<lparr>selected := tab\<rparr>)" using assms(1) by (simp add: fresh_def)
  with TabChanged show ?thesis
    by (simp add: notebook_tab_changed_def fresh_fold_enable_or_disable)
next
  case (SetStrVar v s)
  with assms(1) show ?thesis by (simp add: fresh_def str_var_set_frame)
next
  case (SetBoolVar v b)
  with assms(1) show ?thesis by (simp add: fresh_def bool_var_set_frame)
next
  case NewStrVar
  with assms(1) show ?thesis by (auto intro: fresh_mono simp: new_str_var_def)
next
  case NewBoolVar
  with assms(1) show ?thesis by (auto intro: fresh_mono simp: new_bool_var_def)
next
  case (KeyPressed r)
  with assms(1) show ?thesis
    by (simp add: fresh_def bind_callback_def bool_var_set_def split: option.splits payload.splits)
qed

lemma fresh_init_state: "fresh init_state"
  by (simp add: fresh_def init_state_def)

subsection \<open>The handlers of the tab change\<close>

lemma fold_enable_or_disable_frame:
  "selected (fold (enable_or_disable sub) hs st) = selected st \<and>
   tab_handlers (fold (enable_or_disable sub) hs st) = tab_handlers st"
proof (induction hs arbitrary: st)
  case Nil
  show ?case by simp
next
  case (Cons h hs)
  have "selected (enable_or_disable sub h st) = selected st \<and>
        tab_handlers (enable_or_disable sub h st) = tab_handlers st"
    by (cases h) (simp add: enable_or_disable_def set_enabled_frame)
  then show ?case by (simp add: Cons.IH)
qed

lemma wf_path: "wf st \<Longrightarrow> map_of (actions st) k = Some a \<Longrightarrow> path a = k"
  unfolding wf_iff by blast

lemma set_enabled_other:
  assumes "wf st" and "r \<noteq> p"
  shows "map_of (actions (set_enabled r b st)) p = map_of (actions st) p \<and>
         (\<exists>evs. events (set_enabled r b st) = events st @ evs \<and>
                filter (\<lambda>e. data e = p) evs = [])"
proof -
  have "filter (\<lambda>e. data e = p)
          (case map_of (actions st) r of
             None \<Rightarrow> []
           | Some a \<Rightarrow>
               if enabled a = b then []
               else [if b then ActionEnabled (path a) else ActionDisabled (path a)]) = []"
    using assms wf_path[OF assms(1), of r] by (auto split: option.splits)
  then show ?thesis
    using assms(2) by (simp add: map_of_set_enabled events_set_enabled)
qed

lemma fold_enable_other:
  assumes "wf st" and "p \<notin> fst ` set hs"
  shows "map_of (actions (fold (enable_or_disable sub) hs st)) p = map_of (actions st) p \<and>
         (\<exists>evs. events (fold (enable_or_disable sub) hs st) = events st @ evs \<and>
                filter (\<lambda>e. data e = p) evs = [])"
  using assms
proof (induction hs arbitrary: st)
  case Nil
  then show ?case by simp
next
  case (Cons h hs)
  obtain r types where h: "h = (r, types)" by (cases h)
  let ?st1 = "set_enabled r (isinstance sub (selected st) types) st"
  have rp: "r \<noteq> p" and ph: "p \<notin> fst ` set hs" using Cons.prems(2) h by auto
  have w1: "wf ?st1" using Cons.prems(1) by (rule wf_set_enabled)
  from set_enabled_other[OF Cons.prems(1) rp, of "isinstance sub (selected st) types"]
  obtain e1 where 1: "map_of (actions ?st1) p = map_of (actions st) p"
    "events ?st1 = events st @ e1" "filter (\<lambda>e. data e = p) e1 = []"
    by blast
  from Cons.IH[OF w1 ph]
  obtain e2 where 2: "map_of (actions (fold (enable_or_disable sub) hs ?st1)) p =
      map_of (actions ?st1) p"
    "events (fold (enable_or_disable sub) hs ?st1) = events ?st1 @ e2"
    "filter (\<lambda>e. data e = p) e2 = []"
    by blast
  have f: "fold (enable_or_disable sub) (h # hs) st = fold (enable_or_disable sub) hs ?st1"
    by (simp add: h enable_or_disable_def)
  have "events (fold (enable_or_disable sub) (h # hs) st) = events st @ (e1 @ e2) \<and>
        filter (\<lambda>e. data e = p) (e1 @ e2) = []"
    unfolding f using 1 2 by simp
  then show ?case using 1(1) 2(1) unfolding f by metis
qed

lemma fold_enable_self:
  assumes "wf st" and "distinct (map fst hs)" and "(p, types) \<in> set hs"
    and "map_of (actions st) p = Some a"
  shows "map_of (actions (fold (enable_or_disable sub) hs st)) p =
           Some (a\<lparr>enabled := isinstance sub (selected st) types\<rparr>) \<and>
         (\<exists>evs. events (fold (enable_or_disable sub) hs st) = events st @ evs \<and>
                filter (\<lambda>e. data e = p) evs =
                  (if enabled a = isinstance sub (selected st) types then []
                   else [if isinstance sub (selected st) types
                         then ActionEnabled p else ActionDisabled p]))"
  using assms
proof (induction hs arbitrary: st a)
  case Nil
  then show ?case by simp
next
  case (Cons h hs)
  obtain r ts where h: "h = (r, ts)" by (cases h)
  let ?b = "isinstance sub (selected st) ts"
  let ?st1 = "set_enabled r ?b st"
  have w1: "wf ?st1" using Cons.prems(1) by (rule wf_set_enabled)
  have f: "fold (enable_or_disable sub) (h # hs) st = fold (enable_or_disable sub) hs ?st1"
    by (simp add: h enable_or_disable_def)
  have s1: "selected ?st1 = selected st" by (simp add: set_enabled_frame)
  show ?case
  proof (cases "r = p")
    case True
    have ph: "p \<notin> fst ` set hs" using Cons.prems(2) h True by simp
    have "(p, types) \<notin> set hs" using ph by force
    with Cons.prems(3) h True have ts: "ts = types" by simp
    have pa: "path a = p" using wf_path[OF Cons.prems(1) Cons.prems(4)] .
    have m1: "map_of (actions ?st1) p = Some (a\<lparr>enabled := isinstance sub (selected st) types\<rparr>)"
      using Cons.prems(4) True ts by (simp add: map_of_set_enabled)
    have e1: "events ?st1 = events st @
        (if enabled a = isinstance sub (selected st) types then []
         else [if isinstance sub (selected st) types then ActionEnabled p else ActionDisabled p])"
      using Cons.prems(4) True ts pa by (simp add: events_set_enabled)
    from fold_enable_other[OF w1 ph, of sub]
    obtain e2 where 2: "map_of (actions (fold (enable_or_disable sub) hs ?st1)) p =
        map_of (actions ?st1) p"
      "events (fold (enable_or_disable sub) hs ?st1) = events ?st1 @ e2"
      "filter (\<lambda>e. data e = p) e2 = []"
      by blast
    let ?e1 = "if enabled a = isinstance sub (selected st) types then []
         else [if isinstance sub (selected st) types then ActionEnabled p else ActionDisabled p]"
    have "events (fold (enable_or_disable sub) (h # hs) st) = events st @ (?e1 @ e2) \<and>
          filter (\<lambda>e. data e = p) (?e1 @ e2) = ?e1"
      unfolding f using 2 e1 by simp
    then show ?thesis using m1 2(1) unfolding f by metis
  next
    case False
    have mem: "(p, types) \<in> set hs" using Cons.prems(3) h False by simp
    have d: "distinct (map fst hs)" using Cons.prems(2) by simp
    from set_enabled_other[OF Cons.prems(1) False, of ?b]
    obtain e1 where 1: "map_of (actions ?st1) p = map_of (actions st) p"
      "events ?st1 = events st @ e1" "filter (\<lambda>e. data e = p) e1 = []"
      by blast
    have m1: "map_of (actions ?st1) p = Some a" using 1(1) Cons.prems(4) by simp
    from Cons.IH[OF w1 d mem m1]
    obtain e2 where 2: "map_of (actions (fold (enable_or_disable sub) hs ?st1)) p =
           Some (a\<lparr>enabled := isinstance sub (selected st) types\<rparr>)"
      "events (fold (enable_or_disable sub) hs ?st1) = events ?st1 @ e2"
      "filter (\<lambda>e. data e = p) e2 =
                  (if enabled a = isinstance sub (selected st) types then []
                   else [if isinstance sub (selected st) types
                         then ActionEnabled p else ActionDisabled p])"
      unfolding s1 by blast
    have "events (fold (enable_or_disable sub) (h # hs) st) = events st @ (e1 @ e2) \<and>
          filter (\<lambda>e. data e = p) (e1 @ e2) =
                  (if enabled a = isinstance sub (selected st) types then []
                   else [if isinstance sub (selected st) types
                         then ActionEnabled p else ActionDisabled p])"
      unfolding f using 1 2 by simp
    then show ?thesis using 2(1) unfolding f by metis
  qed
qed

lemma handlers_add_any_action:
  "set (tab_handlers st) \<subseteq> set (tab_handlers (snd (add_any_action sub p pl b tt st)))"
proof (cases "startswith p CHR ''/'' \<or> endswith p CHR ''/''")
  case True
  then show ?thesis by (simp add: add_any_action_invalid)
next
  case False
  then have v: "\<not> startswith p CHR ''/''" "\<not> endswith p CHR ''/''" by simp_all
  show ?thesis
  proof (cases "registered st p")
    case True
    then show ?thesis using v by (simp add: add_any_action_duplicate)
  next
    case False
    show ?thesis by (simp add: add_any_action_new(5)[OF v False])
  qed
qed

lemma handlers_step: "set (tab_handlers st) \<subseteq> set (tab_handlers (step sub x st))"
proof (cases x)
  case (Register p reg tt)
  obtain pl b st1 where pr: "prepare reg st = (pl, b, st1)"
    by (cases "prepare reg st") auto
  have "set (tab_handlers st1) \<subseteq> set (tab_handlers (snd (add_any_action sub p pl b tt st1)))"
    by (rule handlers_add_any_action)
  then show ?thesis
    using Register pr by (simp add: register_eq prepare_frame(4)[OF pr])
next
  case (SetEnabled r b)
  then show ?thesis by (simp add: set_enabled_frame)
next
  case (TabChanged tab)
  then show ?thesis by (simp add: notebook_tab_changed_def fold_enable_or_disable_frame)
next
  case (SetStrVar v s)
  then show ?thesis by (simp add: str_var_set_frame)
next
  case (SetBoolVar v b)
  then show ?thesis by (simp add: bool_var_set_frame)
next
  case NewStrVar
  then show ?thesis by (simp add: new_str_var_def)
next
  case NewBoolVar
  then show ?thesis by (simp add: new_bool_var_def)
next
  case (KeyPressed r)
  then show ?thesis
    by (simp add: bind_callback_def bool_var_set_def split: option.splits payload.splits)
qed

lemma handlers_run: "h \<in> set (tab_handlers st) \<Longrightarrow> h \<in> set (tab_handlers (run sub xs st))"
  unfolding run_def
proof (induction xs arbitrary: st)
  case Nil
  then show ?case by simp
next
  case (Cons x xs)
  from Cons.prems handlers_step[of st sub x] have "h \<in> set (tab_handlers (step sub x st))"
    by blast
  then show ?case by (simp add: Cons.IH)
qed

lemma tab_changed_handler:
  assumes "wf st" and "(p, types) \<in> set (tab_handlers st)"
  shows "\<exists>evs. enabled_of (notebook_tab_changed sub tab st) p = Some (isinstance sub tab types) \<and>
           events (notebook_tab_changed sub tab st) = events st @ evs \<and>
           filter (\<lambda>e. data e = p) evs =
             (if enabled_of st p = Some (isinstance sub tab types) then []
              else [if isinstance sub tab types then ActionEnabled p else ActionDisabled p])"
proof -
  let ?s = "st\<lparr>selected := tab\<rparr>"
  from assms have d: "distinct (map fst (tab_handlers st))" and "registered st p"
    unfolding wf_iff by force+
  then obtain a where a: "map_of (actions st) p = Some a"
    by (auto simp: registered_def)
  have w: "wf ?s" using assms(1) by (simp add: wf_cong[of ?s st])
  have a': "map_of (actions ?s) p = Some a" using a by simp
  from fold_enable_self[OF w d assms(2) a', of sub]
  obtain evs where
    1: "map_of (actions (notebook_tab_changed sub tab st)) p =
          Some (a\<lparr>enabled := isinstance sub tab types\<rparr>)" and
    2: "events (notebook_tab_changed sub tab st) = events st @ evs" and
    3: "filter (\<lambda>e. data e = p) evs =
          (if enabled a = isinstance sub tab types then []
           else [if isinstance sub tab types then ActionEnabled p else ActionDisabled p])"
    unfolding notebook_tab_changed_def by auto
  have "enabled_of st p = Some (enabled a)" using a by (simp add: enabled_of_def)
  with 1 2 3 show ?thesis by (auto simp: enabled_of_def)
qed

subsection \<open>Two remarks\<close>

text \<open>Without inheritance between tab classes, \<open>isinstance\<close> is membership.\<close>

lemma isinstance_flat:
  "isinstance (=) tab types \<longleftrightarrow>
     (case tab of None \<Rightarrow> NoneType | Some c \<Rightarrow> TabType c) \<in> set types"
proof (cases tab)
  case None
  then show ?thesis by (simp add: isinstance_def)
next
  case (Some c)
  have "list_ex (\<lambda>t. case t of NoneType \<Rightarrow> False | TabType d \<Rightarrow> c = d) types \<longleftrightarrow>
        TabType c \<in> set types"
    by (induction types) (auto split: pytype.splits)
  with Some show ?thesis by (simp add: isinstance_def)
qed

text \<open>\<open>add_choice\<close> without choices, default and variable fails in \<open>choices[0]\<close>.\<close>

lemma add_choice_no_choices:
  "add_choice sub p [] None None tt st = (Inl IndexError, st)"
  by (simp add: add_choice_def)

section \<open>The properties\<close>

text \<open>
  C1. A successful call of \<open>add_command\<close>, \<open>add_yesno\<close> or \<open>add_choice\<close> with path \<open>p\<close>
  leaves a state in which \<open>get_action p\<close> returns an action whose path is \<open>p\<close> and whose
  kind is that of the entry point.
\<close>

theorem add_then_get_action:
  "(add_command sub p cb b tt st = (Inr r, st') \<longrightarrow>
      (\<exists>a. get_action p st' = Inr a \<and> path a = p \<and> kind a = Command)) \<and>
   (add_yesno sub p d b v tt st = (Inr r, st') \<longrightarrow>
      (\<exists>a. get_action p st' = Inr a \<and> path a = p \<and> kind a = YesNo)) \<and>
   (add_choice sub p cs x v tt st = (Inr r, st') \<longrightarrow>
      (\<exists>a. get_action p st' = Inr a \<and> path a = p \<and> kind a = Choice))"
  using register_then_get_action[of sub p "AddCommand cb b" tt st r st']
    register_then_get_action[of sub p "AddYesNo d b v" tt st r st']
    register_then_get_action[of sub p "AddChoice cs x v" tt st r st']
  by simp

theorem add_then_get_action_witness:
  "(\<exists>a. get_action ''Edit/Find''
          (snd (add_command example_sub ''Edit/Find'' 7 (Some ''<Control-f>'') None init_state)) = Inr a \<and>
        path a = ''Edit/Find'' \<and> kind a = Command) \<and>
   (\<exists>a. get_action ''View/Wrap''
          (snd (add_yesno example_sub ''View/Wrap'' (Some True) None None None init_state)) = Inr a \<and>
        path a = ''View/Wrap'' \<and> kind a = YesNo) \<and>
   (\<exists>a. get_action ''View/Theme''
          (snd (add_choice example_sub ''View/Theme'' [''dark'', ''light''] None None
                 (Some [Some ''FileTab'']) init_state)) = Inr a \<and>
        path a = ''View/Theme'' \<and> kind a = Choice)"
proof -
  have 1: "add_command example_sub ''Edit/Find'' 7 (Some ''<Control-f>'') None init_state =
      (Inr ''Edit/Find'',
       snd (add_command example_sub ''Edit/Find'' 7 (Some ''<Control-f>'') None init_state))"
    by (simp add: run_defs)
  have 2: "add_yesno example_sub ''View/Wrap'' (Some True) None None None init_state =
      (Inr ''View/Wrap'',
       snd (add_yesno example_sub ''View/Wrap'' (Some True) None None None init_state))"
    by (simp add: run_defs)
  have 3: "add_choice example_sub ''View/Theme'' [''dark'', ''light''] None None
                 (Some [Some ''FileTab'']) init_state =
      (Inr ''View/Theme'',
       snd (add_choice example_sub ''View/Theme'' [''dark'', ''light''] None None
                 (Some [Some ''FileTab'']) init_state))"
    by (simp add: run_defs)
  show ?thesis
    using add_then_get_action[THEN conjunct1, rule_format, OF 1]
      add_then_get_action[THEN conjunct2, THEN conjunct1, rule_format, OF 2]
      add_then_get_action[THEN conjunct2, THEN conjunct2, rule_format, OF 3]
    by blast
qed

text \<open>
  C2, as amended. A registration call with a path that is registered already fails:
  with \<open>DuplicatePathError\<close> when the entry point accepts its other arguments (as
  \<open>add_command\<close> always does), and with the exception of its own checks otherwise. The
  registry is as before: the actions (so the first action is still returned by
  \<open>get_action\<close>, unchanged), the events, the selected tab, the tab handlers, the key
  bindings, the traces and the calls. Every variable that existed before the call is
  as before, except the variable of the caller that is passed together with a default;
  when no such variable is passed, no warning is produced either.
\<close>

theorem duplicate_path_is_rejected:
  assumes "wf st" and "fresh st" and "registered st p"
  shows "fst (register sub p reg tt st) =
           Inl (if args_ok st reg then DuplicatePathError else arg_error reg) \<and>
         actions (snd (register sub p reg tt st)) = actions st \<and>
         get_action p (snd (register sub p reg tt st)) = get_action p st \<and>
         (\<exists>a. get_action p st = Inr a) \<and>
         events (snd (register sub p reg tt st)) = events st \<and>
         selected (snd (register sub p reg tt st)) = selected st \<and>
         tab_handlers (snd (register sub p reg tt st)) = tab_handlers st \<and>
         all_bindings (snd (register sub p reg tt st)) = all_bindings st \<and>
         text_bindings (snd (register sub p reg tt st)) = text_bindings st \<and>
         traces (snd (register sub p reg tt st)) = traces st \<and>
         calls (snd (register sub p reg tt st)) = calls st \<and>
         (\<forall>w. w < varnum st \<and> overwrites reg \<noteq> Some w \<longrightarrow>
            bool_vars (snd (register sub p reg tt st)) w = bool_vars st w \<and>
            str_vars (snd (register sub p reg tt st)) w = str_vars st w) \<and>
         (overwrites reg = None \<longrightarrow> warnings (snd (register sub p reg tt st)) = warnings st)"
proof -
  obtain pl b st1 where pr: "prepare reg st = (pl, b, st1)"
    by (cases "prepare reg st") auto
  from assms(3) obtain a where a: "map_of (actions st) p = Some a"
    by (auto simp: registered_def)
  with assms(1) have v: "\<not> startswith p CHR ''/''" "\<not> endswith p CHR ''/''"
    unfolding wf_iff by blast+
  have "registered st1 p" using assms(3) by (simp add: prepare_frame(11)[OF pr])
  then have r: "register sub p reg tt st =
      (if args_ok st reg then (Inl DuplicatePathError, st1) else (Inl (arg_error reg), st))"
    using v pr by (simp add: register_eq add_any_action_duplicate)
  have g: "get_action p st = Inr a"
    using a by (simp add: get_action_def rstrip_keep[OF v(2)])
  have g1: "get_action p st1 = get_action p st"
    by (simp add: get_action_def prepare_frame(1)[OF pr])
  show ?thesis
    using prepare_vars[OF pr assms(2)] g g1
    by (simp add: r prepare_frame[OF pr])
qed

theorem duplicate_path_is_rejected_witness:
  "fst (register example_sub ''View/Wrap'' (AddCommand 9 (Some ''<F5>'')) None
     (snd (add_yesno example_sub ''View/Wrap'' (Some False) None None None init_state))) =
     Inl DuplicatePathError \<and>
   fst (register example_sub ''View/Wrap'' (AddChoice [''a'', ''b''] (Some ''c'') None) None
     (snd (add_yesno example_sub ''View/Wrap'' (Some False) None None None init_state))) =
     Inl InvalidChoiceError \<and>
   actions (snd (register example_sub ''View/Wrap'' (AddChoice [''a'', ''b''] None None) None
     (snd (add_yesno example_sub ''View/Wrap'' (Some False) None None None init_state)))) =
     [(''View/Wrap'',
       \<lparr>path = ''View/Wrap'', binding = None, enabled = True, payload = OfYesNo 0\<rparr>)] \<and>
   bool_vars (snd (register example_sub ''View/Wrap'' (AddChoice [''a'', ''b''] None None) None
     (snd (add_yesno example_sub ''View/Wrap'' (Some False) None None None init_state)))) 0 =
     False \<and>
   warnings (snd (register example_sub ''View/Wrap'' (AddChoice [''a'', ''b''] None None) None
     (snd (add_yesno example_sub ''View/Wrap'' (Some False) None None None init_state)))) = []"
proof -
  let ?st = "snd (add_yesno example_sub ''View/Wrap'' (Some False) None None None init_state)"
  have w: "wf ?st"
    using wf_register[OF wf_init_state, of example_sub "''View/Wrap''"
        "AddYesNo (Some False) None None" None] by simp
  have f: "fresh ?st" by (simp add: fresh_def run_defs)
  have r: "registered ?st ''View/Wrap''" by (simp add: run_defs)
  have e: "actions ?st =
      [(''View/Wrap'',
        \<lparr>path = ''View/Wrap'', binding = None, enabled = True, payload = OfYesNo 0\<rparr>)]"
    "warnings ?st = []" "varnum ?st = 1" "bool_vars ?st 0 = False"
    by (simp_all add: run_defs)
  note t = duplicate_path_is_rejected[OF w f r, of example_sub _ None]
  have 1: "fst (register example_sub ''View/Wrap'' (AddCommand 9 (Some ''<F5>'')) None ?st) =
      Inl DuplicatePathError"
    using t[of "AddCommand 9 (Some ''<F5>'')"] by simp
  have 2: "fst (register example_sub ''View/Wrap'' (AddChoice [''a'', ''b''] (Some ''c'') None)
      None ?st) = Inl InvalidChoiceError"
    using t[of "AddChoice [''a'', ''b''] (Some ''c'') None"] by simp
  have 3: "actions (snd (register example_sub ''View/Wrap'' (AddChoice [''a'', ''b''] None None)
      None ?st)) = actions ?st"
    "bool_vars (snd (register example_sub ''View/Wrap'' (AddChoice [''a'', ''b''] None None)
      None ?st)) 0 = bool_vars ?st 0"
    "warnings (snd (register example_sub ''View/Wrap'' (AddChoice [''a'', ''b''] None None)
      None ?st)) = warnings ?st"
    using t[of "AddChoice [''a'', ''b''] None None"] e(3) by simp_all
  from 1 2 3 show ?thesis unfolding e by blast
qed

theorem duplicate_path_overwrites_variable_counterexample:
  "fst (add_yesno example_sub ''View/Wrap'' (Some True) None (Some 0) None
     (snd (add_yesno example_sub ''View/Wrap'' (Some False) None None None init_state))) =
     Inl DuplicatePathError \<and>
   map_of (actions
     (snd (add_yesno example_sub ''View/Wrap'' (Some False) None None None init_state)))
     ''View/Wrap'' =
     Some \<lparr>path = ''View/Wrap'', binding = None, enabled = True, payload = OfYesNo 0\<rparr> \<and>
   bool_vars (snd (add_yesno example_sub ''View/Wrap'' (Some False) None None None init_state)) 0 =
     False \<and>
   bool_vars (snd (add_yesno example_sub ''View/Wrap'' (Some True) None (Some 0) None
     (snd (add_yesno example_sub ''View/Wrap'' (Some False) None None None init_state)))) 0 =
     True \<and>
   fst (add_yesno example_sub ''View/Wrap'' None None None None
     (snd (add_yesno example_sub ''View/Wrap'' (Some False) None None None init_state))) =
     Inl ConfigurationError"
  by (simp add: run_defs)

text \<open>
  C3, as amended. \<open>get_action\<close> removes every trailing \<open>/\<close> of its argument, not one: a
  path that does not end with \<open>/\<close>, followed by any number of \<open>/\<close>, is looked up as the
  path itself; the result is the action stored under it, or \<open>NotFoundError\<close> when there
  is none.
\<close>

theorem get_action_strips_every_slash:
  "\<not> endswith p CHR ''/'' \<Longrightarrow>
   get_action (p @ replicate n CHR ''/'') st =
     (case map_of (actions st) p of None \<Rightarrow> Inl NotFoundError | Some a \<Rightarrow> Inr a)"
  by (simp add: get_action_def rstrip_replicate)

theorem get_action_strips_every_slash_witness:
  "\<not> endswith ''a/b'' CHR ''/'' \<and>
   get_action (''a/b'' @ replicate 3 CHR ''/'')
     (snd (add_command example_sub ''a/b'' 0 None None init_state)) =
   Inr \<lparr>path = ''a/b'', binding = None, enabled = True, payload = OfCommand 0\<rparr> \<and>
   get_action (''x'' @ replicate 1 CHR ''/'')
     (snd (add_command example_sub ''a/b'' 0 None None init_state)) = Inl NotFoundError"
proof -
  have e: "\<not> endswith ''a/b'' CHR ''/''" "\<not> endswith ''x'' CHR ''/''"
    by (simp_all add: endswith_def)
  show ?thesis
    using get_action_strips_every_slash[OF e(1), of 3
        "snd (add_command example_sub ''a/b'' 0 None None init_state)"]
      get_action_strips_every_slash[OF e(2), of 1
        "snd (add_command example_sub ''a/b'' 0 None None init_state)"] e(1)
    by (simp add: run_defs)
qed

theorem get_action_single_slash_counterexample:
  "get_action ''a/b//'' (snd (add_command example_sub ''a/b'' 0 None None init_state)) =
     Inr \<lparr>path = ''a/b'', binding = None, enabled = True, payload = OfCommand 0\<rparr> \<and>
   map_of (actions (snd (add_command example_sub ''a/b'' 0 None None init_state))) ''a/b/'' = None"
  by (simp add: run_defs)

text \<open>
  C4. A write to the \<open>enabled\<close> flag of an action with the value it already has changes
  nothing. A write with the other value generates exactly one event, \<open>ActionEnabled\<close>
  for \<open>True\<close> and \<open>ActionDisabled\<close> for \<open>False\<close>, with the path of the action as data;
  it sets the flag, and nothing else changes.
\<close>

theorem enabled_setter_notifies_transitions:
  assumes "map_of (actions st) r = Some a"
  shows "(enabled a = b \<longrightarrow> set_enabled r b st = st) \<and>
         (enabled a \<noteq> b \<longrightarrow>
            events (set_enabled r b st) =
              events st @ [if b then ActionEnabled (path a) else ActionDisabled (path a)] \<and>
            map_of (actions (set_enabled r b st)) = (map_of (actions st))(r \<mapsto> a\<lparr>enabled := b\<rparr>) \<and>
            map fst (actions (set_enabled r b st)) = map fst (actions st) \<and>
            (set_enabled r b st)\<lparr>actions := actions st, events := events st\<rparr> = st)"
proof (intro conjI impI)
  assume "enabled a = b"
  with assms show "set_enabled r b st = st" by (simp add: set_enabled_def)
next
  assume "enabled a \<noteq> b"
  with assms show "events (set_enabled r b st) =
      events st @ [if b then ActionEnabled (path a) else ActionDisabled (path a)]"
    by (simp add: events_set_enabled)
next
  assume "enabled a \<noteq> b"
  with assms show "map_of (actions (set_enabled r b st)) = (map_of (actions st))(r \<mapsto> a\<lparr>enabled := b\<rparr>)"
    by (simp add: fun_eq_iff map_of_set_enabled)
next
  show "map fst (actions (set_enabled r b st)) = map fst (actions st)"
    by (rule keys_set_enabled)
next
  assume "enabled a \<noteq> b"
  with assms show "(set_enabled r b st)\<lparr>actions := actions st, events := events st\<rparr> = st"
    by (simp add: set_enabled_def event_generate_def)
qed

theorem enabled_setter_notifies_transitions_witness:
  "set_enabled ''Edit/Find'' True
     (snd (add_command example_sub ''Edit/Find'' 7 None None init_state)) =
   snd (add_command example_sub ''Edit/Find'' 7 None None init_state) \<and>
   events (set_enabled ''Edit/Find'' False
     (snd (add_command example_sub ''Edit/Find'' 7 None None init_state))) =
   [NewAction ''Edit/Find'', ActionDisabled ''Edit/Find'']"
proof -
  let ?st = "snd (add_command example_sub ''Edit/Find'' 7 None None init_state)"
  let ?a = "\<lparr>path = ''Edit/Find'', binding = None, enabled = True, payload = OfCommand 7\<rparr>"
  have m: "map_of (actions ?st) ''Edit/Find'' = Some ?a"
    by (simp add: run_defs)
  have e: "events ?st = [NewAction ''Edit/Find'']"
    by (simp add: run_defs)
  show ?thesis
    using enabled_setter_notifies_transitions[OF m, of True]
      enabled_setter_notifies_transitions[OF m, of False] e
    by simp
qed

text \<open>
  C5, as amended. A registration with \<open>tabtypes\<close> sets \<open>enabled\<close> to
  \<open>isinstance(tab, actual_tabtypes)\<close> for the tab selected at that time, and does so
  again on every later \<open>NotebookTabChanged\<close> event, whatever happened in between:
  \<open>enabled\<close> becomes true exactly when no tab is selected and \<open>None\<close> is in \<open>tabtypes\<close>,
  or the class of the selected tab is a class of \<open>tabtypes\<close> or inherits from one (not
  only when it is a member). The value goes through the setter: the registration
  generates \<open>NewAction\<close> and then \<open>ActionDisabled\<close> only if the new action is disabled, and
  a tab change generates one \<open>ActionEnabled\<close> or \<open>ActionDisabled\<close> for the action when
  its flag changes and none when it does not.
\<close>

theorem auto_enable_follows_isinstance:
  assumes "wf st" and "register sub p reg (Some ts) st = (Inr r, st1)"
  shows "enabled_of st1 p = Some (isinstance sub (selected st) (actual_tabtypes ts)) \<and>
         events st1 =
           events st @ NewAction p #
             (if isinstance sub (selected st) (actual_tabtypes ts) then []
              else [ActionDisabled p]) \<and>
         (\<forall>xs tab. \<exists>evs.
            enabled_of (notebook_tab_changed sub tab (run sub xs st1)) p =
              Some (isinstance sub tab (actual_tabtypes ts)) \<and>
            events (notebook_tab_changed sub tab (run sub xs st1)) =
              events (run sub xs st1) @ evs \<and>
            filter (\<lambda>e. data e = p) evs =
              (if enabled_of (run sub xs st1) p = Some (isinstance sub tab (actual_tabtypes ts))
               then []
               else [if isinstance sub tab (actual_tabtypes ts)
                     then ActionEnabled p else ActionDisabled p]))"
proof -
  obtain pl b stp where pr: "prepare reg st = (pl, b, stp)"
    by (cases "prepare reg st") auto
  from register_ok[OF assms(2)] have ok: "args_ok st reg"
    and v: "\<not> startswith p CHR ''/''" "\<not> endswith p CHR ''/''" and nr: "\<not> registered st p"
    by auto
  have nrp: "\<not> registered stp p" using nr by (simp add: prepare_frame(11)[OF pr])
  have st1: "st1 = snd (add_any_action sub p pl b (Some ts) stp)"
    using assms(2) ok pr by (simp add: register_eq)
  note new = add_any_action_new[OF v nrp, of sub pl b "Some ts"]
  have ie: "initially_enabled sub (Some ts) stp = isinstance sub (selected st) (actual_tabtypes ts)"
    by (simp add: initially_enabled_def prepare_frame(3)[OF pr])
  have A: "enabled_of st1 p = Some (isinstance sub (selected st) (actual_tabtypes ts))"
    unfolding st1 enabled_of_def new(2) by (simp add: ie)
  have B: "events st1 =
           events st @ NewAction p #
             (if isinstance sub (selected st) (actual_tabtypes ts) then []
              else [ActionDisabled p])"
    unfolding st1 new(4) by (simp add: ie prepare_frame(2)[OF pr])
  have h1: "(p, actual_tabtypes ts) \<in> set (tab_handlers st1)"
    unfolding st1 new(5) by simp
  have w1: "wf st1"
    using wf_register[OF assms(1), of sub p reg "Some ts"] assms(2) by simp
  have C: "\<exists>evs.
            enabled_of (notebook_tab_changed sub tab (run sub xs st1)) p =
              Some (isinstance sub tab (actual_tabtypes ts)) \<and>
            events (notebook_tab_changed sub tab (run sub xs st1)) =
              events (run sub xs st1) @ evs \<and>
            filter (\<lambda>e. data e = p) evs =
              (if enabled_of (run sub xs st1) p = Some (isinstance sub tab (actual_tabtypes ts))
               then []
               else [if isinstance sub tab (actual_tabtypes ts)
                     then ActionEnabled p else ActionDisabled p])" for xs tab
    by (rule tab_changed_handler[OF wf_run[OF w1] handlers_run[OF h1]])
  from A B C show ?thesis by blast
qed

theorem auto_enable_follows_isinstance_witness:
  "enabled_of
     (snd (register example_sub ''File/Save'' (AddCommand 3 None) (Some [Some ''FileTab''])
        init_state)) ''File/Save'' = Some False \<and>
   events
     (snd (register example_sub ''File/Save'' (AddCommand 3 None) (Some [Some ''FileTab''])
        init_state)) = [NewAction ''File/Save'', ActionDisabled ''File/Save''] \<and>
   enabled_of
     (notebook_tab_changed example_sub (Some ''FileTab'')
        (run example_sub [Register ''Edit/Undo'' (AddCommand 5 None) None, SetEnabled ''File/Save'' True,
             TabChanged None]
           (snd (register example_sub ''File/Save'' (AddCommand 3 None) (Some [Some ''FileTab''])
              init_state)))) ''File/Save'' = Some True"
proof -
  let ?st1 = "snd (register example_sub ''File/Save'' (AddCommand 3 None) (Some [Some ''FileTab''])
        init_state)"
  have h: "register example_sub ''File/Save'' (AddCommand 3 None) (Some [Some ''FileTab''])
        init_state = (Inr ''File/Save'', ?st1)"
    by (simp add: run_defs)
  have i: "isinstance example_sub (selected init_state) (actual_tabtypes [Some ''FileTab'']) = False"
    "isinstance example_sub (Some ''FileTab'') (actual_tabtypes [Some ''FileTab'']) = True"
    "events init_state = []"
    by (simp_all add: isinstance_def example_sub_def actual_tabtypes_def init_state_def)
  note t = auto_enable_follows_isinstance[OF wf_init_state h]
  from t[THEN conjunct1] t[THEN conjunct2, THEN conjunct1]
    t[THEN conjunct2, THEN conjunct2, rule_format,
      where xs = "[Register ''Edit/Undo'' (AddCommand 5 None) None, SetEnabled ''File/Save'' True,
             TabChanged None]" and tab = "Some ''FileTab''"]
  show ?thesis unfolding i by auto
qed

theorem auto_enable_subclass_counterexample:
  "selected (notebook_tab_changed example_sub (Some ''FileTab'') init_state) = Some ''FileTab'' \<and>
   TabType ''FileTab'' \<notin> set (actual_tabtypes [Some ''Tab'']) \<and>
   enabled_of
     (snd (add_command example_sub ''File/Close'' 1 None (Some [Some ''Tab''])
        (notebook_tab_changed example_sub (Some ''FileTab'') init_state)))
     ''File/Close'' = Some True \<and>
   events
     (snd (add_command example_sub ''File/Close'' 1 None (Some [Some ''Tab''])
        (notebook_tab_changed example_sub (Some ''FileTab'') init_state))) =
     [NewAction ''File/Close'']"
  by (simp add: run_defs enabled_of_def)

text \<open>
  C6. The value of the variable of a choice action. Without a variable of the caller:
  a default that is not one of the choices raises \<open>InvalidChoiceError\<close> and changes
  nothing; otherwise a new variable gets the default, or the first choice when there is
  no default. With a variable of the caller: a current value that is not one of the
  choices raises \<open>InvalidChoiceError\<close>, and so does a default that is not one of them,
  both without a change; a default that is one of the choices is written to the
  variable. After a successful call the action has the choices and the variable, and
  the variable holds the default, else the first choice (new variable) or the value it
  had (variable of the caller); that value is one of the choices.
\<close>

theorem add_choice_initial_value:
  "(v = None \<and> d = Some x \<and> x \<notin> set cs \<longrightarrow>
      add_choice sub p cs d v tt st = (Inl InvalidChoiceError, st)) \<and>
   (v = Some w \<and> str_vars st w \<notin> set cs \<longrightarrow>
      add_choice sub p cs d v tt st = (Inl InvalidChoiceError, st)) \<and>
   (v = Some w \<and> d = Some x \<and> x \<notin> set cs \<longrightarrow>
      add_choice sub p cs d v tt st = (Inl InvalidChoiceError, st)) \<and>
   (v = Some w \<and> str_vars st w \<in> set cs \<and> d = Some x \<and> x \<in> set cs \<longrightarrow>
      str_vars (snd (add_choice sub p cs d v tt st)) w = x) \<and>
   (add_choice sub p cs d v tt st = (Inr r, st') \<longrightarrow>
      (\<exists>a u. get_action p st' = Inr a \<and> payload a = OfChoice u cs \<and>
         u = (case v of None \<Rightarrow> varnum st | Some w' \<Rightarrow> w') \<and>
         str_vars st' u =
           (case d of
              Some x' \<Rightarrow> x'
            | None \<Rightarrow> (case v of None \<Rightarrow> cs ! 0 | Some w' \<Rightarrow> str_vars st w')) \<and>
         str_vars st' u \<in> set cs))"
proof (intro conjI impI)
  assume "v = None \<and> d = Some x \<and> x \<notin> set cs"
  then show "add_choice sub p cs d v tt st = (Inl InvalidChoiceError, st)"
    by (simp add: add_choice_def)
next
  assume "v = Some w \<and> str_vars st w \<notin> set cs"
  then show "add_choice sub p cs d v tt st = (Inl InvalidChoiceError, st)"
    by (simp add: add_choice_def)
next
  assume "v = Some w \<and> d = Some x \<and> x \<notin> set cs"
  then show "add_choice sub p cs d v tt st = (Inl InvalidChoiceError, st)"
    by (simp add: add_choice_def)
next
  assume h: "v = Some w \<and> str_vars st w \<in> set cs \<and> d = Some x \<and> x \<in> set cs"
  let ?st1 = "str_var_set w x st"
  have r: "add_choice sub p cs d v tt st = add_any_action sub p (OfChoice w cs) None tt ?st1"
    using h by (simp add: add_choice_def)
  have "str_vars (snd (add_any_action sub p (OfChoice w cs) None tt ?st1)) = str_vars ?st1"
  proof (cases "startswith p CHR ''/'' \<or> endswith p CHR ''/''")
    case True
    then show ?thesis by (simp add: add_any_action_invalid)
  next
    case False
    then show ?thesis
      by (cases "registered ?st1 p")
        (simp_all add: add_any_action_duplicate add_any_action_new(12))
  qed
  then show "str_vars (snd (add_choice sub p cs d v tt st)) w = x"
    by (simp add: r str_var_set_frame)
next
  assume h: "add_choice sub p cs d v tt st = (Inr r, st')"
  then have reg: "register sub p (AddChoice cs d v) tt st = (Inr r, st')" by simp
  obtain pl b st1 where pr: "prepare (AddChoice cs d v) st = (pl, b, st1)"
    by (cases "prepare (AddChoice cs d v) st") auto
  from register_ok[OF reg] have ok: "args_ok st (AddChoice cs d v)"
    and ve: "\<not> startswith p CHR ''/''" "\<not> endswith p CHR ''/''" and nr: "\<not> registered st p"
    by auto
  let ?u = "case v of None \<Rightarrow> varnum st | Some w' \<Rightarrow> w'"
  have pl: "pl = OfChoice ?u cs"
    using pr by (cases v) (auto simp: new_str_var_def)
  have val: "str_vars st1 ?u =
           (case d of
              Some x' \<Rightarrow> x'
            | None \<Rightarrow> (case v of None \<Rightarrow> cs ! 0 | Some w' \<Rightarrow> str_vars st w'))"
    using pr ok
    by (cases v; cases d; cases cs)
      (auto simp: new_str_var_def str_var_set_frame)
  have mem: "str_vars st1 ?u \<in> set cs"
    unfolding val using ok by (cases v; cases d; cases cs) auto
  have nr1: "\<not> registered st1 p" using nr by (simp add: prepare_frame(11)[OF pr])
  have st': "st' = snd (add_any_action sub p pl b tt st1)"
    using reg ok pr by (simp add: register_eq)
  note new = add_any_action_new[OF ve nr1, of sub pl b tt]
  have sv: "str_vars st' = str_vars st1" by (simp add: st' new(12))
  have "get_action p st' =
      Inr \<lparr>path = p, binding = b, enabled = initially_enabled sub tt st1, payload = pl\<rparr>"
    unfolding st' get_action_def rstrip_keep[OF ve(2)] new(2) by simp
  with pl val mem sv
  show "\<exists>a u. get_action p st' = Inr a \<and> payload a = OfChoice u cs \<and>
         u = (case v of None \<Rightarrow> varnum st | Some w' \<Rightarrow> w') \<and>
         str_vars st' u =
           (case d of
              Some x' \<Rightarrow> x'
            | None \<Rightarrow> (case v of None \<Rightarrow> cs ! 0 | Some w' \<Rightarrow> str_vars st w')) \<and>
         str_vars st' u \<in> set cs"
    by simp
qed

theorem add_choice_initial_value_witness:
  "add_choice example_sub ''View/Theme'' [''dark'', ''light''] (Some ''blue'') None None init_state =
     (Inl InvalidChoiceError, init_state) \<and>
   add_choice example_sub ''View/Theme'' [''dark'', ''light''] None (Some 4) None init_state =
     (Inl InvalidChoiceError, init_state) \<and>
   add_choice example_sub ''View/Theme'' [''dark'', ''light''] (Some ''blue'') (Some 4) None
     (str_var_set 4 ''dark'' init_state) =
     (Inl InvalidChoiceError, str_var_set 4 ''dark'' init_state) \<and>
   str_vars (snd (add_choice example_sub ''View/Theme'' [''dark'', ''light''] (Some ''light'')
     (Some 4) None (str_var_set 4 ''dark'' init_state))) 4 = ''light'' \<and>
   (\<exists>a. get_action ''View/Theme''
           (snd (add_choice example_sub ''View/Theme'' [''dark'', ''light''] None None None
              init_state)) = Inr a \<and>
        payload a = OfChoice 0 [''dark'', ''light''] \<and>
        str_vars (snd (add_choice example_sub ''View/Theme'' [''dark'', ''light''] None None None
              init_state)) 0 = ''dark'')"
proof -
  let ?cs = "[''dark'', ''light'']"
  let ?s4 = "str_var_set 4 ''dark'' init_state"
  have 1: "(None::var option) = None \<and> Some ''blue'' = Some ''blue'' \<and> ''blue'' \<notin> set ?cs"
    by simp
  have 2: "Some (4::var) = Some 4 \<and> str_vars init_state 4 \<notin> set ?cs"
    by (simp add: init_state_def)
  have 3: "Some (4::var) = Some 4 \<and> Some ''blue'' = Some ''blue'' \<and> ''blue'' \<notin> set ?cs"
    by simp
  have 4: "Some (4::var) = Some 4 \<and> str_vars ?s4 4 \<in> set ?cs \<and>
           Some ''light'' = Some ''light'' \<and> ''light'' \<in> set ?cs"
    by (simp add: str_var_set_frame)
  have 5: "add_choice example_sub ''View/Theme'' ?cs None None None init_state =
            (Inr ''View/Theme'',
             snd (add_choice example_sub ''View/Theme'' ?cs None None None init_state))"
    by (simp add: run_defs)
  have n: "varnum init_state = 0" by (simp add: init_state_def)
  from add_choice_initial_value[THEN conjunct1, rule_format, OF 1]
  have r1: "add_choice example_sub ''View/Theme'' ?cs (Some ''blue'') None None init_state =
     (Inl InvalidChoiceError, init_state)" .
  from add_choice_initial_value[THEN conjunct2, THEN conjunct1, rule_format, OF 2]
  have r2: "add_choice example_sub ''View/Theme'' ?cs None (Some 4) None init_state =
     (Inl InvalidChoiceError, init_state)" .
  from add_choice_initial_value[THEN conjunct2, THEN conjunct2, THEN conjunct1, rule_format, OF 3]
  have r3: "add_choice example_sub ''View/Theme'' ?cs (Some ''blue'') (Some 4) None ?s4 =
     (Inl InvalidChoiceError, ?s4)" .
  from add_choice_initial_value[THEN conjunct2, THEN conjunct2, THEN conjunct2, THEN conjunct1,
      rule_format, OF 4]
  have r4: "str_vars (snd (add_choice example_sub ''View/Theme'' ?cs (Some ''light'')
     (Some 4) None ?s4)) 4 = ''light''" .
  from add_choice_initial_value[THEN conjunct2, THEN conjunct2, THEN conjunct2, THEN conjunct2,
      rule_format, OF 5] n
  have r5: "\<exists>a. get_action ''View/Theme''
           (snd (add_choice example_sub ''View/Theme'' ?cs None None None init_state)) = Inr a \<and>
        payload a = OfChoice 0 ?cs \<and>
        str_vars (snd (add_choice example_sub ''View/Theme'' ?cs None None None init_state)) 0 =
          ''dark''"
    by auto
  from r1 r2 r3 r4 r5 show ?thesis by blast
qed

text \<open>
  C7. A write to the variable of a choice action with a value that is not one of its
  choices: the variable holds the written value, the write is total (no exception),
  the actions (so every \<open>enabled\<close> flag) and the events are untouched, and among the
  warnings the write produces exactly one names the action, with the written value.
\<close>

theorem invalid_write_is_reported:
  assumes "wf st" and "map_of (actions st) p = Some a" and "payload a = OfChoice v cs"
    and "x \<notin> set cs"
  shows "str_vars (str_var_set v x st) v = x \<and>
         actions (str_var_set v x st) = actions st \<and>
         events (str_var_set v x st) = events st \<and>
         (\<exists>ws. warnings (str_var_set v x st) = warnings st @ ws \<and>
               filter (\<lambda>w. fst w = p) ws = [(p, x)])"
proof -
  from assms(1) have
    T: "distinct (map (\<lambda>t. fst (snd t)) (traces st))" and
    A: "\<And>k a. map_of (actions st) k = Some a \<Longrightarrow>
        (\<forall>v cs. payload a = OfChoice v cs \<longrightarrow> (v, k, cs) \<in> set (traces st))"
    unfolding wf_iff by blast+
  from A[OF assms(2)] assms(3) have t: "(v, p, cs) \<in> set (traces st)" by blast
  let ?ws = "map (\<lambda>t. (fst (snd t), x))
               (filter (\<lambda>t. fst t = v \<and> x \<notin> set (snd (snd t))) (traces st))"
  have "filter (\<lambda>w. fst w = p) ?ws =
        map (\<lambda>t. (fst (snd t), x))
          (filter (\<lambda>t. fst t = v \<and> x \<notin> set (snd (snd t)))
             (filter (\<lambda>t. fst (snd t) = fst (snd (v, p, cs))) (traces st)))"
    by (simp add: filter_map comp_def conj_commute)
  also have "\<dots> = map (\<lambda>t. (fst (snd t), x))
          (filter (\<lambda>t. fst t = v \<and> x \<notin> set (snd (snd t))) [(v, p, cs)])"
    by (simp only: filter_distinct_key[OF T t])
  also have "\<dots> = [(p, x)]" using assms(4) by simp
  finally have "filter (\<lambda>w. fst w = p) ?ws = [(p, x)]" .
  then show ?thesis
    by (simp add: str_var_set_frame warnings_str_var_set)
qed

theorem invalid_write_is_reported_witness:
  "str_vars (str_var_set 0 ''blue''
     (snd (add_choice example_sub ''View/Theme'' [''dark'', ''light''] None None None init_state))) 0 =
     ''blue'' \<and>
   warnings (str_var_set 0 ''blue''
     (snd (add_choice example_sub ''View/Theme'' [''dark'', ''light''] None None None init_state))) =
     [(''View/Theme'', ''blue'')]"
proof -
  let ?st = "snd (add_choice example_sub ''View/Theme'' [''dark'', ''light''] None None None init_state)"
  let ?a = "\<lparr>path = ''View/Theme'', binding = None, enabled = True,
             payload = OfChoice 0 [''dark'', ''light'']\<rparr>"
  have w: "wf ?st"
    using wf_register[OF wf_init_state, of example_sub "''View/Theme''"
        "AddChoice [''dark'', ''light''] None None" None] by simp
  have m: "map_of (actions ?st) ''View/Theme'' = Some ?a" by (simp add: run_defs)
  have pl: "payload ?a = OfChoice 0 [''dark'', ''light'']" by simp
  have x: "''blue'' \<notin> set [''dark'', ''light'']" by simp
  have ws: "warnings (str_var_set 0 ''blue'' ?st) = [(''View/Theme'', ''blue'')]"
    by (simp add: run_defs)
  from invalid_write_is_reported[OF w m pl x] ws show ?thesis by simp
qed

text \<open>
  C8. The key binding handler of an action: when the action is disabled it changes
  nothing and returns \<open>None\<close>, so that the event goes on to the other handlers; when the
  action is enabled it returns \<open>'break'\<close>, which stops the event, after it has called the
  callback of a command or negated the variable of a yes/no action. A registration with
  a key binding installs this handler under the key, both in the \<open>bind_all\<close> table and in
  the table of the class \<open>Text\<close>.
\<close>

theorem bind_callback_respects_enabled:
  "(map_of (actions st) r = Some a \<and> \<not> enabled a \<longrightarrow> bind_callback r st = (PyNone, st)) \<and>
   (map_of (actions st) r = Some a \<and> enabled a \<longrightarrow>
      fst (bind_callback r st) = Break \<and>
      snd (bind_callback r st) =
        (case payload a of
           OfCommand cb \<Rightarrow> st\<lparr>calls := calls st @ [cb]\<rparr>
         | OfYesNo v \<Rightarrow> st\<lparr>bool_vars := (bool_vars st)(v := \<not> bool_vars st v)\<rparr>
         | OfChoice v cs \<Rightarrow> st)) \<and>
   (register sub p reg tt st = (Inr r, st') \<and> reg_binding reg = Some key \<longrightarrow>
      (key, p) \<in> set (all_bindings st') \<and> map_of (text_bindings st') key = Some p \<and>
      (\<exists>a'. map_of (actions st') p = Some a' \<and> binding a' = Some key \<and>
            kind a' = reg_kind reg \<and> kind a' \<noteq> Choice))"
proof (intro conjI impI)
  assume "map_of (actions st) r = Some a \<and> \<not> enabled a"
  then show "bind_callback r st = (PyNone, st)" by (simp add: bind_callback_def)
next
  assume "map_of (actions st) r = Some a \<and> enabled a"
  then show "fst (bind_callback r st) = Break" by (simp add: bind_callback_def)
next
  assume "map_of (actions st) r = Some a \<and> enabled a"
  then show "snd (bind_callback r st) =
        (case payload a of
           OfCommand cb \<Rightarrow> st\<lparr>calls := calls st @ [cb]\<rparr>
         | OfYesNo v \<Rightarrow> st\<lparr>bool_vars := (bool_vars st)(v := \<not> bool_vars st v)\<rparr>
         | OfChoice v cs \<Rightarrow> st)"
    by (simp add: bind_callback_def bool_var_set_def split: payload.splits)
next
  assume h: "register sub p reg tt st = (Inr r, st') \<and> reg_binding reg = Some key"
  obtain pl b st1 where pr: "prepare reg st = (pl, b, st1)"
    by (cases "prepare reg st") auto
  have b: "b = Some key" using h prepare_frame(12)[OF pr] by simp
  have nc: "kind_of pl \<noteq> Choice" using prepare_frame(10)[OF pr] b by auto
  from h have ok: "args_ok st reg" and v: "\<not> startswith p CHR ''/''" "\<not> endswith p CHR ''/''"
    and nr: "\<not> registered st p"
    using register_ok[of sub p reg tt st r st'] by auto
  have nr1: "\<not> registered st1 p" using nr by (simp add: prepare_frame(11)[OF pr])
  have st': "st' = snd (add_any_action sub p pl b tt st1)"
    using h ok pr by (simp add: register_eq)
  note new = add_any_action_new[OF v nr1, of sub pl b tt]
  show "(key, p) \<in> set (all_bindings st')"
    unfolding st' new(7) using nc by (simp add: b)
  show "map_of (text_bindings st') key = Some p"
    unfolding st' new(8) using nc by (simp add: b update_conv')
  show "\<exists>a'. map_of (actions st') p = Some a' \<and> binding a' = Some key \<and>
            kind a' = reg_kind reg \<and> kind a' \<noteq> Choice"
    unfolding st' new(2) using nc prepare_frame(9)[OF pr] by (simp add: b kind_def)
qed

theorem bind_callback_respects_enabled_witness:
  "bind_callback ''File/Save''
     (snd (add_command example_sub ''File/Save'' 3 (Some ''<Control-s>'') (Some [Some ''FileTab''])
        init_state)) =
   (PyNone,
    snd (add_command example_sub ''File/Save'' 3 (Some ''<Control-s>'') (Some [Some ''FileTab''])
        init_state)) \<and>
   fst (bind_callback ''Edit/Undo''
     (snd (add_command example_sub ''Edit/Undo'' 5 (Some ''<Control-z>'') None init_state))) = Break \<and>
   calls (snd (bind_callback ''Edit/Undo''
     (snd (add_command example_sub ''Edit/Undo'' 5 (Some ''<Control-z>'') None init_state)))) = [5] \<and>
   bool_vars (snd (bind_callback ''View/Wrap''
     (snd (register example_sub ''View/Wrap'' (AddYesNo (Some False) (Some ''<F5>'') None) None
        init_state)))) 0 = True \<and>
   (''<F5>'', ''View/Wrap'') \<in> set (all_bindings
     (snd (register example_sub ''View/Wrap'' (AddYesNo (Some False) (Some ''<F5>'') None) None
        init_state))) \<and>
   map_of (text_bindings
     (snd (register example_sub ''View/Wrap'' (AddYesNo (Some False) (Some ''<F5>'') None) None
        init_state))) ''<F5>'' = Some ''View/Wrap''"
proof -
  let ?s1 = "snd (add_command example_sub ''File/Save'' 3 (Some ''<Control-s>'')
                (Some [Some ''FileTab'']) init_state)"
  let ?s2 = "snd (add_command example_sub ''Edit/Undo'' 5 (Some ''<Control-z>'') None init_state)"
  let ?s3 = "snd (register example_sub ''View/Wrap'' (AddYesNo (Some False) (Some ''<F5>'') None)
                None init_state)"
  have 1: "map_of (actions ?s1) ''File/Save'' =
             Some \<lparr>path = ''File/Save'', binding = Some ''<Control-s>'', enabled = False,
                    payload = OfCommand 3\<rparr> \<and>
           \<not> enabled \<lparr>path = ''File/Save'', binding = Some ''<Control-s>'', enabled = False,
                    payload = OfCommand 3\<rparr>"
    by (simp add: run_defs)
  have 2: "map_of (actions ?s2) ''Edit/Undo'' =
             Some \<lparr>path = ''Edit/Undo'', binding = Some ''<Control-z>'', enabled = True,
                    payload = OfCommand 5\<rparr> \<and>
           enabled \<lparr>path = ''Edit/Undo'', binding = Some ''<Control-z>'', enabled = True,
                    payload = OfCommand 5\<rparr>"
    by (simp add: run_defs)
  have c2: "calls ?s2 = []" by (simp add: run_defs)
  have 3: "map_of (actions ?s3) ''View/Wrap'' =
             Some \<lparr>path = ''View/Wrap'', binding = Some ''<F5>'', enabled = True,
                    payload = OfYesNo 0\<rparr> \<and>
           enabled \<lparr>path = ''View/Wrap'', binding = Some ''<F5>'', enabled = True,
                    payload = OfYesNo 0\<rparr>"
    by (simp add: run_defs)
  have b3: "bool_vars ?s3 0 = False" by (simp add: run_defs)
  have 4: "register example_sub ''View/Wrap'' (AddYesNo (Some False) (Some ''<F5>'') None) None
              init_state = (Inr ''View/Wrap'', ?s3) \<and>
           reg_binding (AddYesNo (Some False) (Some ''<F5>'') None) = Some ''<F5>''"
    by (simp add: run_defs)
  from bind_callback_respects_enabled[THEN conjunct1, rule_format, OF 1]
  have r1: "bind_callback ''File/Save'' ?s1 = (PyNone, ?s1)" .
  from bind_callback_respects_enabled[THEN conjunct2, THEN conjunct1, rule_format, OF 2] c2
  have r2: "fst (bind_callback ''Edit/Undo'' ?s2) = Break"
    "calls (snd (bind_callback ''Edit/Undo'' ?s2)) = [5]"
    by simp_all
  from bind_callback_respects_enabled[THEN conjunct2, THEN conjunct1, rule_format, OF 3] b3
  have r3: "bool_vars (snd (bind_callback ''View/Wrap'' ?s3)) 0 = True"
    by simp
  from bind_callback_respects_enabled[THEN conjunct2, THEN conjunct2, rule_format, OF 4]
  have r4: "(''<F5>'', ''View/Wrap'') \<in> set (all_bindings ?s3)"
    "map_of (text_bindings ?s3) ''<F5>'' = Some ''View/Wrap''"
    by simp_all
  from r1 r2 r3 r4 show ?thesis by blast
qed

text \<open>
  C9, as amended. A registration call whose path starts or ends with \<open>/\<close> fails and
  adds nothing to the registry: the actions, events, tab handlers, key bindings and
  traces are as before. The exception is \<open>InvalidPathError\<close> when the entry point
  accepts its other arguments, as \<open>add_command\<close> always does; \<open>add_yesno\<close> and
  \<open>add_choice\<close> check their own arguments first and raise \<open>ConfigurationError\<close>,
  \<open>InvalidChoiceError\<close> or \<open>IndexError\<close> when those checks fail.
\<close>

theorem invalid_path_is_rejected:
  assumes "startswith p CHR ''/'' \<or> endswith p CHR ''/''"
  shows "fst (register sub p reg tt st) =
           Inl (if args_ok st reg then InvalidPathError else arg_error reg) \<and>
         add_command sub p cb b tt st = (Inl InvalidPathError, st) \<and>
         actions (snd (register sub p reg tt st)) = actions st \<and>
         events (snd (register sub p reg tt st)) = events st \<and>
         tab_handlers (snd (register sub p reg tt st)) = tab_handlers st \<and>
         all_bindings (snd (register sub p reg tt st)) = all_bindings st \<and>
         text_bindings (snd (register sub p reg tt st)) = text_bindings st \<and>
         traces (snd (register sub p reg tt st)) = traces st"
proof -
  obtain pl b' st1 where pr: "prepare reg st = (pl, b', st1)"
    by (cases "prepare reg st") auto
  have r: "register sub p reg tt st =
      (if args_ok st reg then (Inl InvalidPathError, st1) else (Inl (arg_error reg), st))"
    using assms pr by (simp add: register_eq add_any_action_invalid)
  have c: "add_command sub p cb b tt st = (Inl InvalidPathError, st)"
    using assms by (simp add: add_command_def add_any_action_invalid)
  show ?thesis
    using c by (simp add: r prepare_frame[OF pr])
qed

theorem invalid_path_is_rejected_witness:
  "fst (register example_sub ''/x'' (AddChoice [''a'', ''b''] None None) None init_state) =
     Inl InvalidPathError \<and>
   add_command example_sub ''x/'' 0 None None init_state = (Inl InvalidPathError, init_state) \<and>
   fst (register example_sub ''/'' (AddYesNo (Some True) None None) None init_state) =
     Inl InvalidPathError \<and>
   actions (snd (register example_sub ''/'' (AddYesNo (Some True) None None) None init_state)) = []"
proof -
  have 1: "startswith ''/x'' CHR ''/'' \<or> endswith ''/x'' CHR ''/''"
    and 2: "startswith ''x/'' CHR ''/'' \<or> endswith ''x/'' CHR ''/''"
    and 3: "startswith ''/'' CHR ''/'' \<or> endswith ''/'' CHR ''/''"
    by (simp_all add: startswith_def endswith_def)
  have a: "actions init_state = []" by (simp add: init_state_def)
  show ?thesis
    using invalid_path_is_rejected[OF 1, of example_sub "AddChoice [''a'', ''b''] None None" None
        init_state]
      invalid_path_is_rejected[OF 2, of example_sub "AddCommand 0 None" None init_state 0 None]
      invalid_path_is_rejected[OF 3, of example_sub "AddYesNo (Some True) None None" None
        init_state] a
    by simp
qed

theorem invalid_path_other_error_counterexample:
  "add_yesno example_sub ''/x'' None None None None init_state =
     (Inl ConfigurationError, init_state) \<and>
   add_choice example_sub ''x/'' [''a'', ''b''] (Some ''c'') None None init_state =
     (Inl InvalidChoiceError, init_state)"
  by (simp add: add_yesno_def add_choice_def)

text \<open>
  C10. The empty path passes the check of \<open>_add_any_action\<close>: when no action has it yet
  and the entry point accepts its other arguments, the registration succeeds, and both
  \<open>get_action ''''\<close> and \<open>get_action ''/''\<close> return the new action.
\<close>

theorem empty_path_is_registered:
  assumes "\<not> registered st []" and "args_ok st reg"
  shows "\<exists>st' a. register sub [] reg tt st = (Inr [], st') \<and>
           get_action [] st' = Inr a \<and> get_action ''/'' st' = Inr a \<and>
           path a = [] \<and> kind a = reg_kind reg"
proof -
  obtain pl b st1 where pr: "prepare reg st = (pl, b, st1)"
    by (cases "prepare reg st") auto
  have v: "\<not> startswith [] CHR ''/''" "\<not> endswith [] CHR ''/''"
    by (simp_all add: startswith_def endswith_def)
  have nr: "\<not> registered st1 []"
    using assms(1) by (simp add: prepare_frame(11)[OF pr])
  have nb: "\<not> (b \<noteq> None \<and> kind_of pl = Choice)"
    using prepare_frame(10)[OF pr] by blast
  have r: "register sub [] reg tt st = add_any_action sub [] pl b tt st1"
    using assms(2) pr by (simp add: register_eq)
  define st' where "st' = snd (add_any_action sub [] pl b tt st1)"
  have res: "register sub [] reg tt st = (Inr [], st')"
    using add_any_action_new(1)[OF v nr, of sub pl b tt] nb
    by (simp add: r st'_def prod_eq_iff)
  from register_then_get_action[OF res] obtain a where
    a: "get_action [] st' = Inr a" "path a = []" "kind a = reg_kind reg"
    by blast
  have "rstrip ''/'' CHR ''/'' = []" by (simp add: rstrip_def)
  with a(1) have "get_action ''/'' st' = Inr a"
    by (simp add: get_action_def rstrip_keep[OF v(2)])
  with res a show ?thesis by blast
qed

theorem empty_path_is_registered_witness:
  "\<not> registered init_state [] \<and> args_ok init_state (AddYesNo (Some False) (Some ''<F5>'') None) \<and>
   (\<exists>st' a. register example_sub [] (AddYesNo (Some False) (Some ''<F5>'') None) None init_state =
              (Inr [], st') \<and>
           get_action [] st' = Inr a \<and> get_action ''/'' st' = Inr a \<and>
           path a = [] \<and> kind a = YesNo)"
proof -
  have h: "\<not> registered init_state []" "args_ok init_state (AddYesNo (Some False) (Some ''<F5>'') None)"
    by (simp_all add: registered_def init_state_def)
  show ?thesis
    using empty_path_is_registered[OF h, of example_sub None] h by simp
qed

end
